theory Spec2Isabelle
  imports Main "HOL-Library.AList"
begin

section \<open>Values, exceptions and text\<close>

text \<open>
  Byte strings (\<^verbatim>\<open>bytes\<close>) are lists of 8-bit characters. A decoded Python
  \<^verbatim>\<open>str\<close> is represented by its (valid) UTF-8 encoding, so decoding is a
  validity check that either raises or returns the same bytes.
\<close>

type_synonym bytes = string
type_synonym str = string
type_synonym path = string

datatype exn =
    RuntimeError
  | ValueError
  | UnicodeDecodeError
  | IOError
  | OSError
  | IndexError
  | AssertionError
  | BadZipFile
  | CalledProcessError

definition ord :: "char \<Rightarrow> nat" where
  "ord c = of_char c"

subsection \<open>\<^verbatim>\<open>bytes.decode('utf-8')\<close>\<close>

definition cont :: "nat \<Rightarrow> bool" where
  "cont b = (0x80 \<le> b \<and> b \<le> 0xBF)"

fun utf8_ok :: "nat list \<Rightarrow> bool" where
  "utf8_ok [] = True"
| "utf8_ok (b # bs) =
     (if b < 0x80 then utf8_ok bs
      else if 0xC2 \<le> b \<and> b \<le> 0xDF then
        (case bs of c1 # r \<Rightarrow> cont c1 \<and> utf8_ok r | _ \<Rightarrow> False)
      else if 0xE0 \<le> b \<and> b \<le> 0xEF then
        (case bs of
           c1 # c2 # r \<Rightarrow>
             (if b = 0xE0 then 0xA0 \<le> c1 \<and> c1 \<le> 0xBF
              else if b = 0xED then 0x80 \<le> c1 \<and> c1 \<le> 0x9F
              else cont c1) \<and> cont c2 \<and> utf8_ok r
         | _ \<Rightarrow> False)
      else if 0xF0 \<le> b \<and> b \<le> 0xF4 then
        (case bs of
           c1 # c2 # c3 # r \<Rightarrow>
             (if b = 0xF0 then 0x90 \<le> c1 \<and> c1 \<le> 0xBF
              else if b = 0xF4 then 0x80 \<le> c1 \<and> c1 \<le> 0x8F
              else cont c1) \<and> cont c2 \<and> cont c3 \<and> utf8_ok r
         | _ \<Rightarrow> False)
      else False)"

definition decode_utf8 :: "bytes \<Rightarrow> exn + str" where
  "decode_utf8 v = (if utf8_ok (map ord v) then Inr v else Inl UnicodeDecodeError)"

subsection \<open>\<^verbatim>\<open>int(x)\<close> on a string\<close>

text \<open>
  \<^verbatim>\<open>int(x)\<close> reads a string in base 10. A string with a character beyond ASCII is
  first brought to ASCII: every white space character of Unicode becomes a blank and
  every decimal digit of Unicode its ASCII digit, and any other character beyond ASCII
  makes the parse fail; an ASCII string is read as it is. The parse then skips the white
  space of C (tab to carriage return, and blank) at both ends, reads an optional sign and
  then decimal digits. From version 3.6 on single underscores may separate digits. An
  interpreter with a limit on the digits of an integer in a string (zero: no limit)
  refuses more digits, when they are more than 640. The two Unicode tables, whether underscores are read, and the
  limit are parameters, given by the interpreter.
\<close>

record interpreter =
  uni_space :: "nat \<Rightarrow> bool"
  uni_decimal :: "nat \<Rightarrow> nat option"
  int_underscores :: bool
  int_max_str_digits :: nat

text \<open>The code points of a decoded string.\<close>

fun utf8_points :: "nat list \<Rightarrow> nat list option" where
  "utf8_points [] = Some []"
| "utf8_points (b # bs) =
     (if b < 0x80 then map_option (Cons b) (utf8_points bs)
      else if 0xC2 \<le> b \<and> b \<le> 0xDF then
        (case bs of
           c1 # r \<Rightarrow> map_option (Cons ((b - 0xC0) * 64 + (c1 - 0x80))) (utf8_points r)
         | _ \<Rightarrow> None)
      else if 0xE0 \<le> b \<and> b \<le> 0xEF then
        (case bs of
           c1 # c2 # r \<Rightarrow>
             map_option (Cons ((b - 0xE0) * 4096 + (c1 - 0x80) * 64 + (c2 - 0x80)))
               (utf8_points r)
         | _ \<Rightarrow> None)
      else if 0xF0 \<le> b \<and> b \<le> 0xF4 then
        (case bs of
           c1 # c2 # c3 # r \<Rightarrow>
             map_option
               (Cons ((b - 0xF0) * 262144 + (c1 - 0x80) * 4096 + (c2 - 0x80) * 64 + (c3 - 0x80)))
               (utf8_points r)
         | _ \<Rightarrow> None)
      else None)"

definition to_ascii :: "interpreter \<Rightarrow> nat \<Rightarrow> nat option" where
  "to_ascii u cp =
     (if cp < 127 then Some cp
      else if uni_space u cp then Some 32
      else (case uni_decimal u cp of
              None \<Rightarrow> None
            | Some d \<Rightarrow> if d < 10 then Some (48 + d) else None))"

definition transform :: "interpreter \<Rightarrow> nat list \<Rightarrow> nat list option" where
  "transform u cps =
     (if list_all (\<lambda>cp. cp < 128) cps then Some cps else those (map (to_ascii u) cps))"

definition c_isspace :: "nat \<Rightarrow> bool" where
  "c_isspace n = ((9 \<le> n \<and> n \<le> 13) \<or> n = 32)"

definition strip :: "nat list \<Rightarrow> nat list" where
  "strip s = rev (dropWhile c_isspace (rev (dropWhile c_isspace s)))"

definition is_decimal :: "nat \<Rightarrow> bool" where
  "is_decimal c = (48 \<le> c \<and> c \<le> 57)"

fun parse_digits :: "bool \<Rightarrow> bool \<Rightarrow> int \<Rightarrow> nat list \<Rightarrow> int option" where
  "parse_digits us prev acc [] = (if prev then Some acc else None)"
| "parse_digits us prev acc (c # cs) =
     (if is_decimal c then parse_digits us True (10 * acc + (int c - 48)) cs
      else if us \<and> c = 95 \<and> prev then parse_digits us False acc cs
      else None)"

definition too_long :: "interpreter \<Rightarrow> nat list \<Rightarrow> bool" where
  "too_long u cs =
     (640 < length (filter is_decimal cs) \<and> 0 < int_max_str_digits u \<and>
      int_max_str_digits u < length (filter is_decimal cs))"

definition parse_long :: "interpreter \<Rightarrow> nat list \<Rightarrow> int option" where
  "parse_long u buffer =
     (case strip buffer of
        [] \<Rightarrow> None
      | c # cs \<Rightarrow>
          if too_long u (c # cs) then None
          else if c = 45 then map_option uminus (parse_digits (int_underscores u) False 0 cs)
          else if c = 43 then parse_digits (int_underscores u) False 0 cs
          else parse_digits (int_underscores u) False 0 (c # cs))"

definition py_int :: "interpreter \<Rightarrow> str \<Rightarrow> exn + int" where
  "py_int u x =
     (case utf8_points (map ord x) of
        None \<Rightarrow> Inl ValueError
      | Some cps \<Rightarrow>
          (case transform u cps of
             None \<Rightarrow> Inl ValueError
           | Some buffer \<Rightarrow>
               (case parse_long u buffer of None \<Rightarrow> Inl ValueError | Some n \<Rightarrow> Inr n)))"

text \<open>The bytes of the patterns: \<^verbatim>\<open>\d\<close>, and \<^verbatim>\<open>\s\<close> of a text pattern in the ASCII
  range (which has the four separators after the carriage return group as well).\<close>

definition in_range :: "char \<Rightarrow> char \<Rightarrow> char \<Rightarrow> bool" where
  "in_range lo hi c = (ord lo \<le> ord c \<and> ord c \<le> ord hi)"

definition is_digit :: "char \<Rightarrow> bool" where
  "is_digit c = in_range (CHR ''0'') (CHR ''9'') c"

definition is_space :: "char \<Rightarrow> bool" where
  "is_space c = ((9 \<le> ord c \<and> ord c \<le> 13) \<or> (28 \<le> ord c \<and> ord c \<le> 32))"

section \<open>Tag container and deferred setters\<close>

text \<open>
  The tag container is an attribute store, an association list from attribute names to
  values: \<^verbatim>\<open>setattr(tag, attr, v)\<close> binds the attribute name to the value. A value is a string or the pair
  \<^verbatim>\<open>(n, None)\<close> built for the track number.
\<close>

datatype pyval = PStr str | PTrack int "int option"

type_synonym tag = "(string \<times> pyval) list"

text \<open>The two conversion functions \<^verbatim>\<open>f\<close> that \<^verbatim>\<open>_setter\<close> is given.\<close>

datatype conv = Ident | IntNone

fun call_conv :: "interpreter \<Rightarrow> conv \<Rightarrow> str \<Rightarrow> exn + pyval" where
  "call_conv u Ident x = Inr (PStr x)"
| "call_conv u IntNone x =
     (case py_int u x of Inl e \<Rightarrow> Inl e | Inr n \<Rightarrow> Inr (PTrack n None))"

text \<open>
  \<^verbatim>\<open>_setter(attr, f)(value)\<close> returns the closure \<^verbatim>\<open>innermost\<close>, which has
  captured \<^verbatim>\<open>attr\<close>, \<^verbatim>\<open>f\<close> and \<^verbatim>\<open>value\<close>; nothing is computed until the
  closure is called with a tag.
\<close>

datatype setter = Closure string conv str

definition py_setter :: "string \<Rightarrow> conv \<Rightarrow> str \<Rightarrow> setter" where
  "py_setter attr f v = Closure attr f v"

fun innermost :: "interpreter \<Rightarrow> setter \<Rightarrow> tag \<Rightarrow> exn + tag" where
  "innermost u (Closure attr f v) t =
     (case call_conv u f v of Inl e \<Rightarrow> Inl e | Inr y \<Rightarrow> Inr (AList.update attr y t))"

definition TAG_MAP :: "bytes \<rightharpoonup> (str \<Rightarrow> setter)" where
  "TAG_MAP = map_of
     [(''TITLE'', py_setter ''title'' Ident),
      (''ARTIST'', py_setter ''artist'' Ident),
      (''ALBUM'', py_setter ''album'' Ident),
      (''TRACKNUMBER'', py_setter ''track_num'' IntNone),
      (''DATE'', py_setter ''year'' Ident),
      (''ALBUMARTIST'', py_setter ''album_artist'' Ident)]"

section \<open>Parsing the metadata listing\<close>

fun split_nl :: "bytes \<Rightarrow> bytes list" where
  "split_nl [] = [[]]"
| "split_nl (c # cs) =
     (if c = CHR 0x0A then [] # split_nl cs
      else (case split_nl cs of l # ls \<Rightarrow> (c # l) # ls | [] \<Rightarrow> [[c]]))"

text \<open>The classes of the pattern, on bytes: \<^verbatim>\<open>\s\<close>, \<^verbatim>\<open>\d\<close> and \<^verbatim>\<open>[A-Za-z 0-9_]\<close>.\<close>

definition re_space :: "char \<Rightarrow> bool" where
  "re_space c = (c = CHR '' '' \<or> (9 \<le> ord c \<and> ord c \<le> 13))"

definition key_char :: "char \<Rightarrow> bool" where
  "key_char c =
     (in_range (CHR ''A'') (CHR ''Z'') c \<or> in_range (CHR ''a'') (CHR ''z'') c \<or>
      c = CHR '' '' \<or> is_digit c \<or> c = CHR ''_'')"

definition strip_prefix :: "string \<Rightarrow> string \<Rightarrow> string option" where
  "strip_prefix p s = (if take (length p) s = p then Some (drop (length p) s) else None)"

text \<open>
  \<^verbatim>\<open>re.match(br'\s+comment\[\d+\]: ([A-Za-z 0-9_]+)=(.*)', line)\<close>. Every
  repetition is followed by a literal outside its class, so the greedy match is the only
  one; a line holds no newline, so \<^verbatim>\<open>(.*)\<close> takes the rest of it.
\<close>

definition match_key_value :: "bytes \<Rightarrow> (bytes \<times> bytes) option" where
  "match_key_value r4 =
     (let key = takeWhile key_char r4; r5 = dropWhile key_char r4 in
      if key = [] then None
      else (case r5 of
              c # v \<Rightarrow> (if c = CHR ''='' then Some (key, v) else None)
            | [] \<Rightarrow> None))"

definition match_index :: "bytes \<Rightarrow> bytes option" where
  "match_index r2 =
     (let ds = takeWhile is_digit r2; r3 = dropWhile is_digit r2 in
      if ds = [] then None else strip_prefix '']: '' r3)"

definition match_comment :: "bytes \<Rightarrow> (bytes \<times> bytes) option" where
  "match_comment line =
     (let ws = takeWhile re_space line; r1 = dropWhile re_space line in
      if ws = [] then None
      else (case strip_prefix ''comment['' r1 of
              None \<Rightarrow> None
            | Some r2 \<Rightarrow>
                (case match_index r2 of
                   None \<Rightarrow> None
                 | Some r4 \<Rightarrow> match_key_value r4)))"

text \<open>
  The generator body for one line: nothing for a line that does not match or whose key
  is not in \<^verbatim>\<open>TAG_MAP\<close>; otherwise the value is decoded (which may raise) and the
  closure is yielded.
\<close>

definition line_setters :: "bytes \<Rightarrow> exn + setter list" where
  "line_setters line =
     (case match_comment line of
        None \<Rightarrow> Inr []
      | Some (key, v) \<Rightarrow>
          (case TAG_MAP key of
             None \<Rightarrow> Inr []
           | Some attrfunc \<Rightarrow>
               (case decode_utf8 v of
                  Inl e \<Rightarrow> Inl e
                | Inr s \<Rightarrow> Inr [attrfunc s])))"

fun collect :: "bytes list \<Rightarrow> exn + setter list" where
  "collect [] = Inr []"
| "collect (l # ls) =
     (case line_setters l of
        Inl e \<Rightarrow> Inl e
      | Inr xs \<Rightarrow> (case collect ls of Inl e \<Rightarrow> Inl e | Inr ys \<Rightarrow> Inr (xs @ ys)))"

text \<open>\<^verbatim>\<open>list(metaflac_stdout_to_setters(output))\<close>\<close>

definition metaflac_stdout_to_setters :: "bytes \<Rightarrow> exn + setter list" where
  "metaflac_stdout_to_setters output = collect (split_nl output)"

text \<open>The loop of \<^verbatim>\<open>set_tags\<close>: the setters are called in order on the tag.\<close>

fun apply_setters :: "interpreter \<Rightarrow> setter list \<Rightarrow> tag \<Rightarrow> exn + tag" where
  "apply_setters u [] t = Inr t"
| "apply_setters u (s # ss) t =
     (case innermost u s t of Inl e \<Rightarrow> Inl e | Inr t' \<Rightarrow> apply_setters u ss t')"

section \<open>Reading the listing as a list of entries\<close>

text \<open>
  The recognised entries of a listing: the key and the raw value of every line that
  matches the pattern and whose key is in \<^verbatim>\<open>TAG_MAP\<close>, in the order of the lines.
\<close>

definition line_entry :: "bytes \<Rightarrow> (bytes \<times> bytes) list" where
  "line_entry line =
     (case match_comment line of
        None \<Rightarrow> []
      | Some (key, v) \<Rightarrow> (if TAG_MAP key = None then [] else [(key, v)]))"

definition recognized :: "bytes \<Rightarrow> (bytes \<times> bytes) list" where
  "recognized output = concat (map line_entry (split_nl output))"

definition entry_setter :: "bytes \<times> bytes \<Rightarrow> setter list" where
  "entry_setter e = (case TAG_MAP (fst e) of None \<Rightarrow> [] | Some attrfunc \<Rightarrow> [attrfunc (snd e)])"

definition last_value :: "bytes \<Rightarrow> bytes \<Rightarrow> bytes option" where
  "last_value output key =
     (case filter (\<lambda>e. fst e = key) (recognized output) of
        [] \<Rightarrow> None
      | e # es \<Rightarrow> Some (snd (last (e # es))))"

definition nl :: bytes where
  "nl = [CHR 0x0A]"

fun attr_of :: "setter \<Rightarrow> string" where
  "attr_of (Closure a f v) = a"

text \<open>The value a closure assigns when its conversion succeeds.\<close>

fun assigned :: "interpreter \<Rightarrow> setter \<Rightarrow> pyval option" where
  "assigned u (Closure a f v) =
     (case call_conv u f v of Inl e \<Rightarrow> None | Inr y \<Rightarrow> Some y)"

definition last_setter :: "string \<Rightarrow> setter list \<Rightarrow> setter option" where
  "last_setter a ss =
     (case filter (\<lambda>s. attr_of s = a) ss of [] \<Rightarrow> None | x # xs \<Rightarrow> Some (last (x # xs)))"

text \<open>The key of \<^verbatim>\<open>TAG_MAP\<close> that sets an attribute.\<close>

definition attr_key :: "string \<Rightarrow> bytes" where
  "attr_key a =
     (if a = ''title'' then ''TITLE'' else if a = ''artist'' then ''ARTIST''
      else if a = ''album'' then ''ALBUM'' else if a = ''track_num'' then ''TRACKNUMBER''
      else if a = ''year'' then ''DATE'' else ''ALBUMARTIST'')"

section \<open>Paths\<close>

text \<open>\<^verbatim>\<open>os.path.splitext\<close>: the extension starts at the last dot of the last path
  component, unless only dots precede it there.\<close>

definition splitext :: "path \<Rightarrow> path \<times> string" where
  "splitext p =
     (let comp = rev (takeWhile (\<lambda>c. c \<noteq> CHR ''/'') (rev p));
          dir = take (length p - length comp) p;
          ext_rev = takeWhile (\<lambda>c. c \<noteq> CHR ''.'') (rev comp)
      in if length ext_rev = length comp then (p, [])
         else (let stem = take (length comp - length ext_rev - 1) comp
               in if \<forall>c \<in> set stem. c = CHR ''.'' then (p, [])
                  else (dir @ stem, drop (length stem) comp)))"

text \<open>\<^verbatim>\<open>os.path.basename\<close> and \<^verbatim>\<open>os.path.join\<close> of two components.\<close>

definition basename :: "path \<Rightarrow> path" where
  "basename p = rev (takeWhile (\<lambda>c. c \<noteq> CHR ''/'') (rev p))"

definition join :: "path \<Rightarrow> path \<Rightarrow> path" where
  "join a b =
     (if b \<noteq> [] \<and> hd b = CHR ''/'' then b
      else if a = [] \<or> last a = CHR ''/'' then a @ b
      else a @ ''/'' @ b)"

text \<open>
  \<^verbatim>\<open>str.lower\<close>, on the ASCII letters. The code only compares the lowered text with
  the ASCII extensions \<^verbatim>\<open>.zip\<close> and \<^verbatim>\<open>.flac\<close>.
\<close>

definition lower_char :: "char \<Rightarrow> char" where
  "lower_char c = (if 65 \<le> ord c \<and> ord c \<le> 90 then char_of (ord c + 32) else c)"

definition lower :: "string \<Rightarrow> string" where
  "lower s = map lower_char s"

definition endswith :: "string \<Rightarrow> string \<Rightarrow> bool" where
  "endswith s suffix =
     (length suffix \<le> length s \<and> drop (length s - length suffix) s = suffix)"

section \<open>The environment: file system, external programs, trace\<close>

text \<open>
  A file carries the tag container that the tagging library reads from it and saves to
  it. The file system is an association list from paths to nodes; paths are compared as
  strings.
\<close>

datatype node = Dir | File tag

datatype event =
    Exec "string list"
  | Pipe "string list list"
  | SaveTag path
  | Remove path
  | Makedirs path
  | Extract path path

record state =
  files :: "(path \<times> node) list"
  trace :: "event list"

text \<open>
  The trace records the commands that are run (also one that cannot be launched) and the
  changes made to the file system, in the order they happen; log messages are not
  recorded. What the external programs do is a parameter, and a function of the command
  only (a listing of the same file is the same each time it is taken): the standard output of a command, the
  exit code of each stage of a chain, the files a chain creates (it removes none),
  whether saving a tag to a path succeeds, whether a command can be launched at all and
  with which exit code, the members of an archive (none when it cannot be read), the
  word and space characters of the pattern library beyond ASCII, the interpreter's
  parameters of \<^verbatim>\<open>int\<close>, what the tagging library writes to a file of the attributes
  that a tag object holds, and, of two pipelines, whether the first has come to its end
  before the second raises.
\<close>

record world =
  proc_stdout :: "string list \<Rightarrow> bytes"
  exit_code :: "string list list \<Rightarrow> nat \<Rightarrow> int"
  chain_creates :: "string list list \<Rightarrow> path list"
  save_ok :: "path \<Rightarrow> bool"
  spawn :: "string list \<Rightarrow> int option"
  zip_members :: "path \<Rightarrow> (path \<times> node) list option"
  unicode_word :: "char \<Rightarrow> bool"
  python :: interpreter
  tag_written :: "tag \<Rightarrow> tag"
  finished_before :: "path \<Rightarrow> path \<Rightarrow> bool"

definition emit :: "event \<Rightarrow> state \<Rightarrow> state" where
  "emit e st = st\<lparr>trace := trace st @ [e]\<rparr>"

definition exists :: "state \<Rightarrow> path \<Rightarrow> bool" where
  "exists st p = (map_of (files st) p \<noteq> None)"

text \<open>\<^verbatim>\<open>os.remove\<close> deletes a regular file and raises otherwise.\<close>

definition os_remove :: "state \<Rightarrow> path \<Rightarrow> exn + state" where
  "os_remove st p =
     (case map_of (files st) p of
        Some (File t) \<Rightarrow> Inr (emit (Remove p) (st\<lparr>files := AList.delete p (files st)\<rparr>))
      | _ \<Rightarrow> Inl OSError)"

definition create_file :: "path \<Rightarrow> (path \<times> node) list \<Rightarrow> (path \<times> node) list" where
  "create_file p fs = AList.update p (File []) fs"

section \<open>Tag extraction and the process chain\<close>

definition metaflac_cmd_args :: "path \<Rightarrow> string list" where
  "metaflac_cmd_args flac_path =
     [''metaflac'', ''--list'', ''--no-utf8-convert'', ''--block-type=VORBIS_COMMENT'', flac_path]"

definition get_tag_setters :: "world \<Rightarrow> state \<Rightarrow> path \<Rightarrow> state \<times> (exn + setter list)" where
  "get_tag_setters w st flac_path =
     (let cmd = metaflac_cmd_args flac_path;
          st1 = emit (Exec cmd) st;
          stdout = proc_stdout w cmd
      in (st1, metaflac_stdout_to_setters stdout))"

text \<open>The pipe builder collects the commands in the order they are chained.\<close>

definition chain :: "string list list \<Rightarrow> string list \<Rightarrow> string list list" where
  "chain pipe cmd = pipe @ [cmd]"

text \<open>\<^verbatim>\<open>call_async\<close> runs the whole chain and returns one return code per stage.\<close>

definition call_async :: "world \<Rightarrow> state \<Rightarrow> string list list \<Rightarrow> state \<times> int list" where
  "call_async w st pipe =
     (emit (Pipe pipe) (st\<lparr>files := foldr create_file (chain_creates w pipe) (files st)\<rparr>),
      map (exit_code w pipe) [0..<length pipe])"

text \<open>\<^verbatim>\<open>result[-1]\<close>\<close>

definition last_item :: "'a list \<Rightarrow> exn + 'a" where
  "last_item xs = (if xs = [] then Inl IndexError else Inr (last xs))"

definition pipe_cmds ::
  "world \<Rightarrow> state \<Rightarrow> string list \<Rightarrow> string list \<Rightarrow> state \<times> (exn + int)" where
  "pipe_cmds w st cmd_args_1 cmd_args_2 =
     (let pipe = chain (chain [] cmd_args_1) cmd_args_2;
          (st1, result) = call_async w st pipe
      in (st1, last_item result))"

section \<open>The per-file pipeline\<close>

definition flac_args :: "path \<Rightarrow> string list" where
  "flac_args flac_path = [''flac'', ''--silent'', ''--stdout'', ''--decode'', flac_path]"

definition lame_args :: "path \<Rightarrow> string list" where
  "lame_args mp3_path = [''lame'', ''-V0'', ''--add-id3v2'', ''--pad-id3v2''] @ [''-'', mp3_path]"

text \<open>The \<^verbatim>\<open>try: os.remove(mp3_path) except: pass\<close> of the failure branch.\<close>

definition remove_quietly :: "state \<Rightarrow> path \<Rightarrow> state" where
  "remove_quietly st p = (case os_remove st p of Inl e \<Rightarrow> st | Inr st' \<Rightarrow> st')"

definition convert_file_only :: "world \<Rightarrow> state \<Rightarrow> path \<Rightarrow> path \<Rightarrow> state \<times> (exn + unit)" where
  "convert_file_only w st flac_path mp3_path =
     (case get_tag_setters w st flac_path of
        (st1, Inl e) \<Rightarrow> (st1, Inl e)
      | (st1, Inr setters) \<Rightarrow>
          (case pipe_cmds w st1 (flac_args flac_path) (lame_args mp3_path) of
             (st2, Inl e) \<Rightarrow> (st2, Inl e)
           | (st2, Inr returncode) \<Rightarrow>
               if returncode \<noteq> 0 then (remove_quietly st2 mp3_path, Inl RuntimeError)
               else (st2, Inr ())))"

text \<open>
  \<^verbatim>\<open>eyed3.load(path).tag\<close>, and \<^verbatim>\<open>set_tags\<close>: the setters are called on the tag
  object, then \<^verbatim>\<open>save\<close> writes to the file what the library writes of that object.
\<close>

definition load_tag :: "state \<Rightarrow> path \<Rightarrow> exn + tag" where
  "load_tag st p = (case map_of (files st) p of Some (File t) \<Rightarrow> Inr t | _ \<Rightarrow> Inl IOError)"

definition set_tags :: "world \<Rightarrow> state \<Rightarrow> path \<Rightarrow> setter list \<Rightarrow> state \<times> (exn + unit)" where
  "set_tags w st p setters =
     (case load_tag st p of
        Inl e \<Rightarrow> (st, Inl e)
      | Inr t \<Rightarrow>
          (case apply_setters (python w) setters t of
             Inl e \<Rightarrow> (st, Inl e)
           | Inr t' \<Rightarrow>
               if save_ok w p
               then (emit (SaveTag p)
                       (st\<lparr>files := AList.update p (File (tag_written w t')) (files st)\<rparr>),
                     Inr ())
               else (st, Inl IOError)))"

definition mp3_path_of :: "path \<Rightarrow> path" where
  "mp3_path_of flac_path = fst (splitext flac_path) @ ''.mp3''"

text \<open>
  \<^verbatim>\<open>asyncio.gather(tag_setters, conversion)\<close>: both awaitables run; the result is
  the pair of their results, or the exception of the one that raised.
\<close>

definition gather2 :: "exn + 'a \<Rightarrow> exn + 'b \<Rightarrow> exn + 'a \<times> 'b" where
  "gather2 r1 r2 =
     (case r1 of
        Inl e \<Rightarrow> Inl e
      | Inr a \<Rightarrow> (case r2 of Inl e \<Rightarrow> Inl e | Inr b \<Rightarrow> Inr (a, b)))"

text \<open>The part of \<^verbatim>\<open>convert_flac\<close> after the entry guard.\<close>

definition convert_flac_body ::
  "world \<Rightarrow> state \<Rightarrow> path \<Rightarrow> path \<Rightarrow> state \<times> (exn + path option)" where
  "convert_flac_body w st flac_path mp3_path =
     (let (st1, tag_setters) = get_tag_setters w st flac_path;
          (st2, conversion) = convert_file_only w st1 flac_path mp3_path
      in case gather2 tag_setters conversion of
           Inl e \<Rightarrow> if e = RuntimeError then (st2, Inr None) else (st2, Inl e)
         | Inr (setters, u) \<Rightarrow>
             (case set_tags w st2 mp3_path setters of
                (st3, Inl e) \<Rightarrow> (st3, Inl e)
              | (st3, Inr u') \<Rightarrow>
                  (case os_remove st3 flac_path of
                     Inl e \<Rightarrow> (st3, Inl e)
                   | Inr st4 \<Rightarrow> (st4, Inr (Some mp3_path)))))"

definition convert_flac :: "world \<Rightarrow> state \<Rightarrow> path \<Rightarrow> state \<times> (exn + path option)" where
  "convert_flac w st flac_path =
     (let mp3_path = mp3_path_of flac_path
      in if exists st mp3_path then (st, Inr None)
         else convert_flac_body w st flac_path mp3_path)"

section \<open>Finding files\<close>

text \<open>
  A file lies under a directory when the directory's path, closed by a slash, is a proper
  prefix of the file's path. \<^verbatim>\<open>recurse\<close> walks the whole tree below a path;
  \<^verbatim>\<open>shallow\<close> lists one directory and raises when the path is not a directory. Both
  are generators: \<^verbatim>\<open>os.walk\<close> lists a directory when it reaches it, while the body of
  the loop that iterates expands archives. The model reads the whole listing off the
  state in which the iteration starts. This is the listing of the code as long as no
  archive is expanded into a directory that the walk has yet to reach, as when the
  destination root lies outside the paths that are searched; an archive that an expansion
  of the same run places below such a directory is met by the code in this run and by the
  model in the next.
\<close>

definition dir_prefix :: "path \<Rightarrow> path" where
  "dir_prefix p = (if p \<noteq> [] \<and> last p = CHR ''/'' then p else p @ ''/'')"

definition is_file :: "state \<Rightarrow> path \<Rightarrow> bool" where
  "is_file st k = (case map_of (files st) k of Some (File t) \<Rightarrow> True | _ \<Rightarrow> False)"

definition below :: "path \<Rightarrow> path \<Rightarrow> bool" where
  "below p k = (take (length (dir_prefix p)) k = dir_prefix p \<and> length (dir_prefix p) < length k)"

definition recurse :: "state \<Rightarrow> path \<Rightarrow> path list" where
  "recurse st p =
     (if p = [] then [] else filter (\<lambda>k. below p k \<and> is_file st k) (map fst (files st)))"

definition shallow :: "state \<Rightarrow> path \<Rightarrow> exn + path list" where
  "shallow st p =
     (if map_of (files st) p = Some Dir
      then Inr (filter (\<lambda>k. below p k \<and> CHR ''/'' \<notin> set (drop (length (dir_prefix p)) k) \<and>
                          is_file st k)
                  (map fst (files st)))
      else Inl OSError)"

definition get_all_matching :: "state \<Rightarrow> path \<Rightarrow> string \<Rightarrow> bool \<Rightarrow> exn + path list" where
  "get_all_matching st p search_ext descend =
     (let ext = lower search_ext in
      if endswith (lower p) ext then Inr [p]
      else (case (if descend then Inr (recurse st p) else shallow st p) of
              Inl e \<Rightarrow> Inl e
            | Inr iterator \<Rightarrow> Inr (filter (\<lambda>q. endswith (lower q) ext) iterator)))"

section \<open>Expanding an archive\<close>

text \<open>
  The two patterns split a name at a separator \<^verbatim>\<open>" - "\<close> into two non-empty
  groups. The groups of \<^verbatim>\<open>HAPPY_ZIP_PAT\<close> hold word, space and digit characters
  only, so the name has one hyphen and one split; the first group of
  \<^verbatim>\<open>CHECK_ZIP_PAT\<close> is greedy, so the last split wins, and its dot matches every
  character but the newline.
\<close>

definition sep_splits :: "string \<Rightarrow> (string \<times> string) list" where
  "sep_splits s =
     map (\<lambda>i. (take i s, drop (i + 3) s))
       (filter (\<lambda>i. take 3 (drop i s) = '' - '') [0..<length s])"

definition happy_char :: "world \<Rightarrow> char \<Rightarrow> bool" where
  "happy_char w c =
     (if ord c < 128
      then in_range (CHR ''A'') (CHR ''Z'') c \<or> in_range (CHR ''a'') (CHR ''z'') c \<or>
           is_digit c \<or> c = CHR ''_'' \<or> is_space c
      else unicode_word w c)"

definition last_split :: "(string \<times> string) list \<Rightarrow> (string \<times> string) option" where
  "last_split xs = (case xs of [] \<Rightarrow> None | y # ys \<Rightarrow> Some (last (y # ys)))"

definition happy_match :: "world \<Rightarrow> string \<Rightarrow> (string \<times> string) option" where
  "happy_match w s =
     last_split
       (filter (\<lambda>(a, b). a \<noteq> [] \<and> b \<noteq> [] \<and> list_all (happy_char w) a \<and>
                          list_all (happy_char w) b)
          (sep_splits s))"

definition check_match :: "string \<Rightarrow> (string \<times> string) option" where
  "check_match s =
     last_split
       (filter (\<lambda>(a, b). a \<noteq> [] \<and> b \<noteq> [] \<and> CHR 0x0A \<notin> set a \<and> CHR 0x0A \<notin> set b)
          (sep_splits s))"

definition generate_dest_dir_name :: "world \<Rightarrow> path \<Rightarrow> exn + path option" where
  "generate_dest_dir_name w p =
     (let (filename, ext) = splitext p;
          base = basename filename
      in if lower ext \<noteq> ''.zip'' then Inl AssertionError
         else (case happy_match w base of
                 Some (a, b) \<Rightarrow> Inr (Some (join a b))
               | None \<Rightarrow>
                   (case check_match base of
                      Some (a, b) \<Rightarrow> Inr (Some (join a b))
                    | None \<Rightarrow> Inr None)))"

text \<open>\<^verbatim>\<open>os.makedirs\<close>: the directory and its missing ancestors are created; it raises
  when the path exists or an ancestor is a regular file.\<close>

definition ancestors :: "path \<Rightarrow> path list" where
  "ancestors p = map (\<lambda>i. take i p) (filter (\<lambda>i. p ! i = CHR ''/'') [1..<length p])"

definition makedirs :: "state \<Rightarrow> path \<Rightarrow> exn + state" where
  "makedirs st p =
     (if exists st p \<or> list_ex (is_file st) (ancestors p) then Inl OSError
      else Inr (emit (Makedirs p)
                  (st\<lparr>files := files st @
                         map (\<lambda>a. (a, Dir)) (filter (\<lambda>a. \<not> exists st a) (ancestors p)) @
                         [(p, Dir)]\<rparr>)))"

text \<open>Opening the archive raises when the path is no file or the file is no archive;
  every member is written below the destination.\<close>

definition zip_open :: "world \<Rightarrow> state \<Rightarrow> path \<Rightarrow> exn + (path \<times> node) list" where
  "zip_open w st p =
     (if \<not> is_file st p then Inl IOError
      else (case zip_members w p of None \<Rightarrow> Inl BadZipFile | Some ms \<Rightarrow> Inr ms))"

definition extractall :: "state \<Rightarrow> path \<Rightarrow> (path \<times> node) list \<Rightarrow> path \<Rightarrow> state" where
  "extractall st zippath ms dest =
     emit (Extract zippath dest)
       (st\<lparr>files := foldl (\<lambda>fs (name, n). AList.update (dest @ ''/'' @ name) n fs) (files st) ms\<rparr>)"

definition unzip_serial :: "world \<Rightarrow> state \<Rightarrow> path \<Rightarrow> path \<Rightarrow> state \<times> (exn + path option)" where
  "unzip_serial w st p dest_root =
     (case generate_dest_dir_name w p of
        Inl e \<Rightarrow> (st, Inl e)
      | Inr None \<Rightarrow> (st, Inr None)
      | Inr (Some dest_dir_name) \<Rightarrow>
          if dest_dir_name = [] then (st, Inr None)
          else (let dest = join dest_root dest_dir_name in
                if exists st dest then (st, Inr None)
                else (case makedirs st dest of
                        Inl e \<Rightarrow> (st, Inl e)
                      | Inr st1 \<Rightarrow>
                          (case zip_open w st1 p of
                             Inl e \<Rightarrow> (st1, Inl e)
                           | Inr ms \<Rightarrow> (extractall st1 p ms dest, Inr (Some dest))))))"

definition unzip :: "world \<Rightarrow> state \<Rightarrow> path \<Rightarrow> path \<Rightarrow> state \<times> (exn + path option)" where
  "unzip w st p dest_root = unzip_serial w st p dest_root"

section \<open>The coordinator\<close>

text \<open>
  The loops of \<^verbatim>\<open>main_loop\<close> expand the archives one after the other and queue one
  pipeline per lossless file found in each expanded directory; nothing of a pipeline
  runs before the joint await.
\<close>

fun unzip_each :: "world \<Rightarrow> state \<Rightarrow> path \<Rightarrow> path list \<Rightarrow> state \<times> (exn + path list)" where
  "unzip_each w st dest_root [] = (st, Inr [])"
| "unzip_each w st dest_root (zippath # zs) =
     (case unzip w st zippath dest_root of
        (st1, Inl e) \<Rightarrow> (st1, Inl e)
      | (st1, Inr None) \<Rightarrow> unzip_each w st1 dest_root zs
      | (st1, Inr (Some dirname)) \<Rightarrow>
          (case get_all_matching st1 dirname ''.flac'' True of
             Inl e \<Rightarrow> (st1, Inl e)
           | Inr flacs \<Rightarrow>
               (case unzip_each w st1 dest_root zs of
                  (st2, Inl e) \<Rightarrow> (st2, Inl e)
                | (st2, Inr rest) \<Rightarrow> (st2, Inr (flacs @ rest)))))"

fun unzip_all ::
  "world \<Rightarrow> state \<Rightarrow> path \<Rightarrow> path list \<Rightarrow> bool \<Rightarrow> state \<times> (exn + path list)" where
  "unzip_all w st dest_root [] descend = (st, Inr [])"
| "unzip_all w st dest_root (p # ps) descend =
     (case get_all_matching st p ''.zip'' descend of
        Inl e \<Rightarrow> (st, Inl e)
      | Inr zips \<Rightarrow>
          (case unzip_each w st dest_root zips of
             (st1, Inl e) \<Rightarrow> (st1, Inl e)
           | (st1, Inr flacs) \<Rightarrow>
               (case unzip_all w st1 dest_root ps descend of
                  (st2, Inl e) \<Rightarrow> (st2, Inl e)
                | (st2, Inr rest) \<Rightarrow> (st2, Inr (flacs @ rest)))))"

text \<open>
  \<^verbatim>\<open>asyncio.gather(*all_converted_files)\<close>. Every pipeline runs up to its first
  suspension before any other work is done, so all entry guards are evaluated on the
  state in which the await starts. The pipelines then run concurrently; the model lets
  them come to their ends one after the other, in the order they were queued. When a
  pipeline raises, the await raises at once and the event loop ends. The pipelines
  queued before it have come to their end by then. Of the pipelines queued after it,
  those that have come to their end by then have run as well, with all their effects;
  which ones these are is a matter of timing, a parameter of the world. The others are
  cut off, and what they have done until then is not recorded.
\<close>

fun run_rest :: "world \<Rightarrow> state \<Rightarrow> path \<Rightarrow> (path \<times> bool) list \<Rightarrow> state" where
  "run_rest w st raised [] = st"
| "run_rest w st raised ((flac_path, skip) # ts) =
     (if skip \<or> \<not> finished_before w flac_path raised then run_rest w st raised ts
      else run_rest w (fst (convert_flac_body w st flac_path (mp3_path_of flac_path))) raised ts)"

fun run_tasks ::
  "world \<Rightarrow> state \<Rightarrow> (path \<times> bool) list \<Rightarrow> state \<times> (exn + path option list)" where
  "run_tasks w st [] = (st, Inr [])"
| "run_tasks w st ((flac_path, skip) # ts) =
     (case (if skip then (st, Inr None)
            else convert_flac_body w st flac_path (mp3_path_of flac_path)) of
        (st1, Inl e) \<Rightarrow> (run_rest w st1 flac_path ts, Inl e)
      | (st1, Inr r) \<Rightarrow>
          (case run_tasks w st1 ts of
             (st2, Inl e) \<Rightarrow> (st2, Inl e)
           | (st2, Inr rs) \<Rightarrow> (st2, Inr (r # rs))))"

definition gather_all :: "world \<Rightarrow> state \<Rightarrow> path list \<Rightarrow> state \<times> (exn + path option list)" where
  "gather_all w st flacs =
     run_tasks w st (map (\<lambda>flac_path. (flac_path, exists st (mp3_path_of flac_path))) flacs)"

definition main_loop ::
  "world \<Rightarrow> state \<Rightarrow> path \<Rightarrow> path list \<Rightarrow> bool \<Rightarrow> state \<times> (exn + path option list)" where
  "main_loop w st dest_root paths descend =
     (case unzip_all w st dest_root paths descend of
        (st1, Inl e) \<Rightarrow> (st1, Inl e)
      | (st1, Inr all_converted_files) \<Rightarrow> gather_all w st1 all_converted_files)"

section \<open>Start-up\<close>

text \<open>\<^verbatim>\<open>sp.check_call([cmd, '--help'])\<close> raises an \<^verbatim>\<open>OSError\<close> when the command
  cannot be launched and a \<^verbatim>\<open>CalledProcessError\<close> when it exits with a non-zero
  code; only the first is caught by \<^verbatim>\<open>check_commands\<close>.\<close>

definition check_call :: "world \<Rightarrow> state \<Rightarrow> string list \<Rightarrow> state \<times> (exn + unit)" where
  "check_call w st cmd =
     (case spawn w cmd of
        None \<Rightarrow> (emit (Exec cmd) st, Inl OSError)
      | Some rc \<Rightarrow> (emit (Exec cmd) st, if rc \<noteq> 0 then Inl CalledProcessError else Inr ()))"

fun check_each ::
  "world \<Rightarrow> state \<Rightarrow> string list \<Rightarrow> string list \<Rightarrow> state \<times> (exn + string list)" where
  "check_each w st missing [] = (st, Inr missing)"
| "check_each w st missing (cmd # cmds) =
     (case check_call w st [cmd, ''--help''] of
        (st1, Inl e) \<Rightarrow>
          if e = OSError then check_each w st1 (missing @ [cmd]) cmds else (st1, Inl e)
      | (st1, Inr u) \<Rightarrow> check_each w st1 missing cmds)"

definition check_commands :: "world \<Rightarrow> state \<Rightarrow> state \<times> (exn + unit)" where
  "check_commands w st =
     (case check_each w st [] [''flac'', ''lame'', ''metaflac''] of
        (st1, Inl e) \<Rightarrow> (st1, Inl e)
      | (st1, Inr missing) \<Rightarrow> if missing \<noteq> [] then (st1, Inl RuntimeError) else (st1, Inr ()))"

text \<open>The parsed command line.\<close>

record args =
  arg_unpack_dir :: path
  arg_descend :: bool
  arg_paths :: "path list"

definition main :: "world \<Rightarrow> state \<Rightarrow> args \<Rightarrow> state \<times> (exn + unit)" where
  "main w st parsed =
     (case check_commands w st of
        (st1, Inl e) \<Rightarrow> (st1, Inl e)
      | (st1, Inr u) \<Rightarrow>
          (case main_loop w st1 (arg_unpack_dir parsed) (arg_paths parsed) (arg_descend parsed) of
             (st2, Inl e) \<Rightarrow> (st2, Inl e)
           | (st2, Inr rs) \<Rightarrow> (st2, Inr ())))"

text \<open>The state in which the transcode chain of a file has just finished.\<close>

definition chain_done :: "world \<Rightarrow> state \<Rightarrow> path \<Rightarrow> path \<Rightarrow> state" where
  "chain_done w st flac_path mp3_path =
     fst (pipe_cmds w (emit (Exec (metaflac_cmd_args flac_path))
                        (emit (Exec (metaflac_cmd_args flac_path)) st))
            (flac_args flac_path) (lame_args mp3_path))"

text \<open>The state in which, after the chain, the tag has been saved to the output file.\<close>

definition tag_saved :: "world \<Rightarrow> state \<Rightarrow> path \<Rightarrow> path \<Rightarrow> tag \<Rightarrow> state" where
  "tag_saved w st flac_path mp3_path t =
     emit (SaveTag mp3_path)
       ((chain_done w st flac_path mp3_path)
          \<lparr>files := AList.update mp3_path (File (tag_written w t))
                      (files (chain_done w st flac_path mp3_path))\<rparr>)"

text \<open>The events a run has added to the trace.\<close>

definition new_events :: "state \<Rightarrow> state \<Rightarrow> event list" where
  "new_events st st' = drop (length (trace st)) (trace st')"

text \<open>
  An archive is expanded in a state when \<^verbatim>\<open>unzip_serial\<close> would skip it there: its name
  gives no destination, or the destination exists. \<^verbatim>\<open>visited\<close> lists the archives that
  the loops of a run iterate over.
\<close>

definition expanded :: "world \<Rightarrow> state \<Rightarrow> path \<Rightarrow> path \<Rightarrow> bool" where
  "expanded w st dest_root zippath =
     (case generate_dest_dir_name w zippath of
        Inl e \<Rightarrow> False
      | Inr None \<Rightarrow> True
      | Inr (Some n) \<Rightarrow> n = [] \<or> exists st (join dest_root n))"

fun visited :: "world \<Rightarrow> state \<Rightarrow> path \<Rightarrow> path list \<Rightarrow> bool \<Rightarrow> path list" where
  "visited w st dest_root [] descend = []"
| "visited w st dest_root (p # ps) descend =
     (case get_all_matching st p ''.zip'' descend of
        Inl e \<Rightarrow> []
      | Inr zips \<Rightarrow>
          zips @ visited w (fst (unzip_each w st dest_root zips)) dest_root ps descend)"

text \<open>The paths of the form of a destination: two components without a slash below the
  destination root.\<close>

definition root_prefix :: "path \<Rightarrow> path" where
  "root_prefix r = (if r = [] \<or> last r = CHR ''/'' then r else r @ ''/'')"

definition two_level :: "path \<Rightarrow> path \<Rightarrow> bool" where
  "two_level dest_root k =
     (\<exists>a b. k = root_prefix dest_root @ a @ ''/'' @ b \<and> a \<noteq> [] \<and> b \<noteq> [] \<and>
            CHR ''/'' \<notin> set a \<and> CHR ''/'' \<notin> set b)"

text \<open>
  A step keeps the destinations when every existing path still exists after it and
  every existing path of the form of a destination still has its node. A queued path is
  in order when it is a destination that is a directory, or lies below a destination.
\<close>

definition kept :: "path \<Rightarrow> state \<Rightarrow> state \<Rightarrow> bool" where
  "kept dest_root st st' =
     ((\<forall>k. exists st k \<longrightarrow> exists st' k) \<and>
      (\<forall>k. exists st k \<longrightarrow> two_level dest_root k \<longrightarrow>
           map_of (files st') k = map_of (files st) k))"

definition queued_ok :: "path \<Rightarrow> state \<Rightarrow> path \<Rightarrow> bool" where
  "queued_ok dest_root st p =
     ((two_level dest_root p \<and> map_of (files st) p = Some Dir) \<or>
      (\<exists>dn rest. two_level dest_root dn \<and> p = dn @ ''/'' @ rest))"

text \<open>The nodes of the existing destinations are the ones of the state in which the
  joint await started; a queued pipeline respects them.\<close>

definition dests_same :: "path \<Rightarrow> state \<Rightarrow> state \<Rightarrow> bool" where
  "dests_same dest_root st0 s =
     (\<forall>k. two_level dest_root k \<longrightarrow> exists st0 k \<longrightarrow> map_of (files s) k = map_of (files st0) k)"

definition task_ok :: "path \<Rightarrow> state \<Rightarrow> path \<times> bool \<Rightarrow> bool" where
  "task_ok dest_root st0 t =
     ((\<not> snd t \<longrightarrow> \<not> exists st0 (mp3_path_of (fst t))) \<and>
      (two_level dest_root (fst t) \<longrightarrow> exists st0 (fst t) \<longrightarrow>
         map_of (files st0) (fst t) = Some Dir))"

text \<open>The availability checks among the events, and a run that adds none of them.\<close>

definition is_check :: "event \<Rightarrow> bool" where
  "is_check e = (case e of Exec [c, h] \<Rightarrow> h = ''--help'' | _ \<Rightarrow> False)"

definition work_only :: "state \<Rightarrow> state \<Rightarrow> bool" where
  "work_only st st' =
     (take (length (trace st)) (trace st') = trace st \<and>
      list_all (\<lambda>e. \<not> is_check e) (new_events st st'))"

definition tool_checks :: "event list" where
  "tool_checks =
     [Exec [''flac'', ''--help''], Exec [''lame'', ''--help''], Exec [''metaflac'', ''--help'']]"

section \<open>Sample inputs\<close>

text \<open>
  A world whose listing, stage exit codes and output behaviour are fixed: the chain
  writes its output file (the last argument of its last command) when asked to.
\<close>

text \<open>
  An interpreter that knows the no-break space and the Arabic-Indic digits beyond ASCII,
  reads underscores and has no limit on digits; and a tagging library that writes the fields it has a frame
  for, and no frame for an empty text.
\<close>

definition sample_interpreter :: interpreter where
  "sample_interpreter =
     \<lparr>uni_space = (\<lambda>n. n = 160),
      uni_decimal = (\<lambda>n. if 1632 \<le> n \<and> n \<le> 1641 then Some (n - 1632) else None),
      int_underscores = True,
      int_max_str_digits = 0\<rparr>"

definition library_fields :: "string list" where
  "library_fields = [''title'', ''artist'', ''album'', ''track_num'', ''album_artist'']"

definition library_writes :: "tag \<Rightarrow> tag" where
  "library_writes t =
     filter (\<lambda>(a, v). a \<in> set library_fields \<and> v \<noteq> PStr []) t"

definition sample_world :: "bytes \<Rightarrow> int \<Rightarrow> int \<Rightarrow> bool \<Rightarrow> world" where
  "sample_world listing rc1 rc2 writes =
     \<lparr>proc_stdout = (\<lambda>cmd. listing),
      exit_code = (\<lambda>pipe i. if i = 0 then rc1 else rc2),
      chain_creates = (\<lambda>pipe. if writes then [last (last pipe)] else []),
      save_ok = (\<lambda>p. True),
      spawn = (\<lambda>cmd. Some 0),
      zip_members = (\<lambda>p. None),
      unicode_word = (\<lambda>c. False),
      python = sample_interpreter,
      tag_written = library_writes,
      finished_before = (\<lambda>p q. False)\<rparr>"

definition sample_state :: state where
  "sample_state = \<lparr>files = [(''d/a.flac'', File [])], trace = []\<rparr>"


definition example_listing :: bytes where
  "example_listing =
     ''    comment[0]: TITLE=Foo'' @ nl @
     ''    comment[1]: COMMENT=ignored'' @ nl @
     ''    comment[2]: ARTIST=Bar'' @ nl"

definition dup_listing :: bytes where
  "dup_listing =
     ''    comment[0]: TITLE=A'' @ nl @
     ''    comment[1]: TITLE=B'' @ nl @
     ''    comment[2]: TRACKNUMBER=7''"


definition seven_listing :: bytes where
  "seven_listing =
     ''    comment[0]: TITLE=Foo'' @ nl @
     ''    comment[1]: TRACKNUMBER=seven'' @ nl"

definition sample_flac :: path where
  "sample_flac = ''d/a.flac''"

definition sample_mp3 :: path where
  "sample_mp3 = ''d/a.mp3''"

definition sample_exec :: event where
  "sample_exec =
     Exec [''metaflac'', ''--list'', ''--no-utf8-convert'', ''--block-type=VORBIS_COMMENT'',
           ''d/a.flac'']"

definition sample_pipe :: event where
  "sample_pipe =
     Pipe [[''flac'', ''--silent'', ''--stdout'', ''--decode'', ''d/a.flac''],
           [''lame'', ''-V0'', ''--add-id3v2'', ''--pad-id3v2'', ''-'', ''d/a.mp3'']]"

text \<open>The states the sample runs end in: transcode failed, committed, committed with
  a listing that has a date, track number not an integer.\<close>

definition sample_failed :: state where
  "sample_failed =
     \<lparr>files = [(''d/a.flac'', File [])],
      trace = [sample_exec, sample_exec, sample_pipe, Remove ''d/a.mp3'']\<rparr>"

definition sample_committed :: state where
  "sample_committed =
     \<lparr>files = [(''d/a.mp3'', File [(''title'', PStr ''B''), (''track_num'', PTrack 7 None)])],
      trace = [sample_exec, sample_exec, sample_pipe, SaveTag ''d/a.mp3'', Remove ''d/a.flac'']\<rparr>"


definition sample_untagged :: state where
  "sample_untagged =
     \<lparr>files = [(''d/a.flac'', File []), (''d/a.mp3'', File [])],
      trace = [sample_exec, sample_exec, sample_pipe]\<rparr>"

text \<open>A world in which lame cannot be launched, and a command line.\<close>

definition no_lame_world :: world where
  "no_lame_world =
     (sample_world [] 0 0 True)
       \<lparr>spawn := (\<lambda>cmd. if cmd = [''lame'', ''--help''] then None else Some 0)\<rparr>"

definition sample_args :: args where
  "sample_args = \<lparr>arg_unpack_dir = ''out'', arg_descend = True, arg_paths = [''in'']\<rparr>"

definition sample_checked :: state where
  "sample_checked = \<lparr>files = [(''d/a.flac'', File [])], trace = tool_checks\<rparr>"

text \<open>
  A batch: one archive with two lossless files; the listing of the first file has the
  track number seven, the listing of the second is in order.
\<close>

definition batch_world :: world where
  "batch_world =
     \<lparr>proc_stdout = (\<lambda>cmd. if last cmd = ''out/Artist/Album/a.flac'' then seven_listing
                            else dup_listing),
      exit_code = (\<lambda>pipe i. 0),
      chain_creates = (\<lambda>pipe. [last (last pipe)]),
      save_ok = (\<lambda>p. True),
      spawn = (\<lambda>cmd. Some 0),
      zip_members = (\<lambda>p. if p = ''in/Artist - Album.zip''
                           then Some [(''a.flac'', File []), (''b.flac'', File [])] else None),
      unicode_word = (\<lambda>c. False),
      python = sample_interpreter,
      tag_written = library_writes,
      finished_before = (\<lambda>p q. False)\<rparr>"

definition batch_state :: state where
  "batch_state = \<lparr>files = [(''in'', Dir), (''in/Artist - Album.zip'', File [])], trace = []\<rparr>"

text \<open>The same batch when the transcode of the first file fails and both listings are in
  order, and the state in which the archive has been expanded.\<close>

definition fail_first_world :: world where
  "fail_first_world =
     batch_world
       \<lparr>proc_stdout := (\<lambda>cmd. dup_listing),
        exit_code := (\<lambda>pipe i. if i = 1 \<and> last (hd pipe) = ''out/Artist/Album/a.flac''
                                then 1 else 0)\<rparr>"

text \<open>The batch of the first world when the second pipeline has come to its end before
  the first raises.\<close>

definition early_world :: world where
  "early_world = batch_world\<lparr>finished_before := (\<lambda>p q. True)\<rparr>"

definition batch_unzipped :: state where
  "batch_unzipped =
     \<lparr>files =
        [(''in'', Dir), (''in/Artist - Album.zip'', File []), (''out'', Dir),
         (''out/Artist'', Dir), (''out/Artist/Album'', Dir),
         (''out/Artist/Album/a.flac'', File []), (''out/Artist/Album/b.flac'', File [])],
      trace =
        [Makedirs ''out/Artist/Album'',
         Extract ''in/Artist - Album.zip'' ''out/Artist/Album'']\<rparr>"

text \<open>The batch when both listings are in order and both transcodes succeed, and the
  state its run ends in.\<close>

definition ok_world :: world where
  "ok_world = batch_world\<lparr>proc_stdout := (\<lambda>cmd. dup_listing)\<rparr>"

definition batch_done :: state where
  "batch_done =
     \<lparr>files =
        [(''in'', Dir), (''in/Artist - Album.zip'', File []), (''out'', Dir),
         (''out/Artist'', Dir), (''out/Artist/Album'', Dir),
         (''out/Artist/Album/a.mp3'',
            File [(''title'', PStr ''B''), (''track_num'', PTrack 7 None)]),
         (''out/Artist/Album/b.mp3'',
            File [(''title'', PStr ''B''), (''track_num'', PTrack 7 None)])],
      trace =
        [Makedirs ''out/Artist/Album'',
         Extract ''in/Artist - Album.zip'' ''out/Artist/Album'',
         Exec (metaflac_cmd_args ''out/Artist/Album/a.flac''),
         Exec (metaflac_cmd_args ''out/Artist/Album/a.flac''),
         Pipe [flac_args ''out/Artist/Album/a.flac'', lame_args ''out/Artist/Album/a.mp3''],
         SaveTag ''out/Artist/Album/a.mp3'',
         Remove ''out/Artist/Album/a.flac'',
         Exec (metaflac_cmd_args ''out/Artist/Album/b.flac''),
         Exec (metaflac_cmd_args ''out/Artist/Album/b.flac''),
         Pipe [flac_args ''out/Artist/Album/b.flac'', lame_args ''out/Artist/Album/b.mp3''],
         SaveTag ''out/Artist/Album/b.mp3'',
         Remove ''out/Artist/Album/b.flac'']\<rparr>"

section \<open>Properties of the tag extractor\<close>

lemma line_setters_Inr:
  "line_setters l = Inr xs \<Longrightarrow> xs = concat (map entry_setter (line_entry l))"
  by (auto simp: line_setters_def line_entry_def entry_setter_def decode_utf8_def split: option.splits sum.splits prod.splits if_splits)

lemma line_setters_err: "line_setters l = Inl e \<Longrightarrow> e = UnicodeDecodeError"
  by (auto simp: line_setters_def decode_utf8_def split: option.splits sum.splits prod.splits if_splits)

lemma line_setters_ok:
  "\<forall>e \<in> set (line_entry l). utf8_ok (map ord (snd e)) \<Longrightarrow> \<exists>xs. line_setters l = Inr xs"
  by (auto simp: line_setters_def line_entry_def decode_utf8_def split: option.splits sum.splits prod.splits if_splits)

lemma line_setters_bad:
  "e \<in> set (line_entry l) \<Longrightarrow> \<not> utf8_ok (map ord (snd e)) \<Longrightarrow> line_setters l = Inl UnicodeDecodeError"
  by (cases "match_comment l") (auto simp: line_setters_def line_entry_def decode_utf8_def split: if_splits)

lemma collect_Inr:
  "collect ls = Inr ss \<Longrightarrow> ss = concat (map entry_setter (concat (map line_entry ls)))"
  by (induction ls arbitrary: ss) (auto split: sum.splits dest: line_setters_Inr)

lemma collect_err: "collect ls = Inl e \<Longrightarrow> e = UnicodeDecodeError"
  by (induction ls) (auto split: sum.splits dest: line_setters_err)

lemma collect_ok:
  "\<forall>e \<in> set (concat (map line_entry ls)). utf8_ok (map ord (snd e)) \<Longrightarrow> \<exists>ss. collect ls = Inr ss"
proof (induction ls)
  case Nil then show ?case by simp
next
  case (Cons l ls)
  then obtain xs where "line_setters l = Inr xs" using line_setters_ok[of l] by auto
  moreover obtain ys where "collect ls = Inr ys" using Cons by auto
  ultimately show ?case by simp
qed

lemma collect_bad:
  "e \<in> set (concat (map line_entry ls)) \<Longrightarrow> \<not> utf8_ok (map ord (snd e)) \<Longrightarrow> collect ls = Inl UnicodeDecodeError"
proof (induction ls)
  case Nil then show ?case by simp
next
  case (Cons l ls)
  show ?case
  proof (cases "e \<in> set (line_entry l)")
    case True
    then show ?thesis using Cons.prems line_setters_bad by simp
  next
    case False
    then have "collect ls = Inl UnicodeDecodeError" using Cons by auto
    then show ?thesis by (auto split: sum.splits dest: line_setters_err)
  qed
qed

lemma extract_char:
  "metaflac_stdout_to_setters out =
     (if \<forall>e \<in> set (recognized out). utf8_ok (map ord (snd e))
      then Inr (concat (map entry_setter (recognized out)))
      else Inl UnicodeDecodeError)"
proof (cases "\<forall>e \<in> set (recognized out). utf8_ok (map ord (snd e))")
  case True
  then obtain ss where "collect (split_nl out) = Inr ss"
    using collect_ok[of "split_nl out"] by (auto simp: recognized_def)
  then show ?thesis using True collect_Inr[of "split_nl out" ss]
    by (simp add: metaflac_stdout_to_setters_def recognized_def)
next
  case False
  then show ?thesis using collect_bad[of _ "split_nl out"]
    by (auto simp: metaflac_stdout_to_setters_def recognized_def)
qed

lemma last_setter_Cons:
  "last_setter a (s # ss) = (case last_setter a ss of Some x \<Rightarrow> Some x | None \<Rightarrow> (if attr_of s = a then Some s else None))"
  by (auto simp: last_setter_def split: list.splits)

lemma apply_last:
  "apply_setters u ss t = Inr t' \<Longrightarrow>
   map_of t' a = (case last_setter a ss of None \<Rightarrow> map_of t a | Some s \<Rightarrow> assigned u s)"
proof (induction ss arbitrary: t)
  case Nil
  then show ?case by (simp add: last_setter_def)
next
  case (Cons s ss)
  obtain b f v where s: "s = Closure b f v" by (cases s)
  from Cons.prems obtain y where y: "call_conv u f v = Inr y"
    and rest: "apply_setters u ss (AList.update b y t) = Inr t'"
    by (auto simp: s split: sum.splits)
  from Cons.IH[OF rest]
  have "map_of t' a =
          (case last_setter a ss of None \<Rightarrow> map_of (AList.update b y t) a | Some s \<Rightarrow> assigned u s)" .
  then show ?case
    by (auto simp: last_setter_Cons s y update_conv' split: option.splits)
qed

lemma TAG_MAP_cases:
  "TAG_MAP k = Some g \<Longrightarrow>
     (k = ''TITLE'' \<and> g = py_setter ''title'' Ident) \<or>
     (k = ''ARTIST'' \<and> g = py_setter ''artist'' Ident) \<or>
     (k = ''ALBUM'' \<and> g = py_setter ''album'' Ident) \<or>
     (k = ''TRACKNUMBER'' \<and> g = py_setter ''track_num'' IntNone) \<or>
     (k = ''DATE'' \<and> g = py_setter ''year'' Ident) \<or>
     (k = ''ALBUMARTIST'' \<and> g = py_setter ''album_artist'' Ident)"
  by (simp add: TAG_MAP_def split: if_splits)

lemma attr_key_inv: "TAG_MAP k = Some g \<Longrightarrow> attr_key (attr_of (g v)) = k"
  apply (drule TAG_MAP_cases)
  apply (elim disjE conjE)
       apply (simp_all add: py_setter_def attr_key_def)
  done

lemma other_keys:
  assumes K: "TAG_MAP K = Some (py_setter a f)" and k: "TAG_MAP k = Some g" and ne: "k \<noteq> K"
  shows "attr_of (g v) \<noteq> a"
proof
  assume e: "attr_of (g v) = a"
  have "attr_key (attr_of (py_setter a f v)) = K" by (rule attr_key_inv[OF K])
  then have "attr_key a = K" by (simp add: py_setter_def)
  moreover have "attr_key (attr_of (g v)) = k" by (rule attr_key_inv[OF k])
  ultimately show False using e ne by simp
qed
lemma filter_entries:
  assumes K: "TAG_MAP K = Some (py_setter a f)"
    and other: "\<And>k g v. TAG_MAP k = Some g \<Longrightarrow> k \<noteq> K \<Longrightarrow> attr_of (g v) \<noteq> a"
  shows "filter (\<lambda>s. attr_of s = a) (concat (map entry_setter es)) =
         map (\<lambda>e. Closure a f (snd e)) (filter (\<lambda>e. fst e = K) es)"
proof (induction es)
  case Nil
  then show ?case by simp
next
  case (Cons e es)
  show ?case
  proof (cases "TAG_MAP (fst e)")
    case None
    then have "fst e \<noteq> K" using K by auto
    then show ?thesis using None Cons by (simp add: entry_setter_def)
  next
    case (Some g)
    show ?thesis
    proof (cases "fst e = K")
      case True
      then show ?thesis using Cons K by (simp add: entry_setter_def py_setter_def)
    next
      case False
      then show ?thesis using Cons Some other[OF Some False] by (simp add: entry_setter_def)
    qed
  qed
qed

lemma last_setter_entries:
  assumes K: "TAG_MAP K = Some (py_setter a f)"
    and other: "\<And>k g v. TAG_MAP k = Some g \<Longrightarrow> k \<noteq> K \<Longrightarrow> attr_of (g v) \<noteq> a"
  shows "last_setter a (concat (map entry_setter (recognized out))) =
         map_option (Closure a f) (last_value out K)"
proof -
  have F: "filter (\<lambda>s. attr_of s = a) (concat (map entry_setter (recognized out))) =
         map (\<lambda>e. Closure a f (snd e)) (filter (\<lambda>e. fst e = K) (recognized out))"
    by (rule filter_entries, rule K, erule other, assumption)
  show ?thesis
    unfolding last_setter_def last_value_def F
    by (auto split: list.splits simp: last_map)
qed

lemma ls_other:
  assumes "a \<notin> {''title'', ''artist'', ''album'', ''track_num'', ''year'', ''album_artist''}"
  shows "last_setter a (concat (map entry_setter es)) = None"
proof -
  have "filter (\<lambda>s. attr_of s = a) (concat (map entry_setter es)) = []"
  proof (induction es)
    case Nil then show ?case by simp
  next
    case (Cons e es)
    then show ?case using assms
      by (auto simp: entry_setter_def py_setter_def split: option.splits dest!: TAG_MAP_cases)
  qed
  then show ?thesis by (simp add: last_setter_def)
qed

lemma entry_setter_length: "e \<in> set (recognized out) \<Longrightarrow> length (entry_setter e) = 1"
  by (auto simp: recognized_def line_entry_def entry_setter_def split: option.splits if_splits)

lemma length_entry_setters:
  "length (concat (map entry_setter (recognized out))) = length (recognized out)"
proof -
  have "\<And>es. \<forall>e \<in> set es. length (entry_setter e) = 1 \<Longrightarrow>
          length (concat (map entry_setter es)) = length es"
    subgoal for es by (induction es) auto
    done
  then show ?thesis using entry_setter_length by blast
qed

lemma recognized_example:
  "recognized example_listing = [(''TITLE'', ''Foo''), (''ARTIST'', ''Bar'')]"
  by code_simp

lemma recognized_dup:
  "recognized dup_listing = [(''TITLE'', ''A''), (''TITLE'', ''B''), (''TRACKNUMBER'', ''7'')]"
  by code_simp

lemma recognized_seven:
  "recognized seven_listing = [(''TITLE'', ''Foo''), (''TRACKNUMBER'', ''seven'')]"
  by code_simp

lemma setters_dup:
  "metaflac_stdout_to_setters dup_listing =
     Inr [Closure ''title'' Ident ''A'', Closure ''title'' Ident ''B'',
          Closure ''track_num'' IntNone ''7'']"
  by code_simp

lemma setters_seven:
  "metaflac_stdout_to_setters seven_listing =
     Inr [Closure ''title'' Ident ''Foo'', Closure ''track_num'' IntNone ''seven'']"
  by code_simp

lemmas py_int_defs =
  py_int_def transform_def parse_long_def strip_def c_isspace_def too_long_def is_decimal_def
  ord_def

lemma py_int_seven: "py_int u ''seven'' = Inl ValueError"
  by (simp add: py_int_defs)

lemma py_int_7: "py_int u ''7'' = Inr 7"
  by (auto simp: py_int_defs)

text \<open>A separator character is not skipped; a digit and a space beyond ASCII are read.\<close>

lemma py_int_separator: "py_int sample_interpreter [CHR 0x1C, CHR ''7'', CHR 0x1F] = Inl ValueError"
  by code_simp

lemma py_int_arabic_indic: "py_int sample_interpreter [CHR 0xD9, CHR 0xA7] = Inr 7"
  by code_simp

lemma py_int_no_break_space: "py_int sample_interpreter [CHR 0xC2, CHR 0xA0, CHR ''7''] = Inr 7"
  by code_simp

lemma py_int_underscore: "py_int sample_interpreter ''1_0'' = Inr 10"
  by code_simp

lemma py_int_signed: "py_int sample_interpreter '' -07 '' = Inr (- 7)"
  by code_simp

lemma py_int_err: "py_int u v = Inl e \<Longrightarrow> e = ValueError"
  by (auto simp: py_int_def Let_def split: option.splits)

lemma call_conv_err: "call_conv u f v = Inl e \<Longrightarrow> e = ValueError"
  by (cases f) (auto split: sum.splits dest: py_int_err)

lemma innermost_err: "innermost u s t = Inl e \<Longrightarrow> e = ValueError"
  by (cases s) (auto split: sum.splits dest: call_conv_err)

lemma apply_setters_err: "apply_setters u ss t = Inl e \<Longrightarrow> e = ValueError"
  by (induction ss arbitrary: t) (auto split: sum.splits dest: innermost_err)

lemma apply_setters_fails:
  "s \<in> set ss \<Longrightarrow> assigned u s = None \<Longrightarrow> apply_setters u ss t = Inl ValueError"
proof (induction ss arbitrary: t)
  case Nil
  then show ?case by simp
next
  case (Cons x xs)
  show ?case
  proof (cases "innermost u x t")
    case (Inl e)
    then show ?thesis using innermost_err by auto
  next
    case (Inr t1)
    then have "s \<noteq> x" using Cons.prems(2) by (cases x) (auto split: sum.splits)
    then show ?thesis using Cons Inr by simp
  qed
qed

lemma entry_setter_track:
  "entry_setter (''TRACKNUMBER'', v) = [Closure ''track_num'' IntNone v]"
  by (simp add: entry_setter_def TAG_MAP_def py_setter_def)

lemma extract_Inr:
  "metaflac_stdout_to_setters out = Inr ss \<Longrightarrow> ss = concat (map entry_setter (recognized out))"
  using extract_char[of out] by (auto split: if_splits)

lemma last_setter_mem: "last_setter a ss = Some s \<Longrightarrow> s \<in> set ss"
proof -
  assume "last_setter a ss = Some s"
  then obtain x xs where f: "filter (\<lambda>s. attr_of s = a) ss = x # xs" and s: "s = last (x # xs)"
    by (auto simp: last_setter_def split: list.splits)
  have "last (x # xs) \<in> set (x # xs)" by (rule last_in_set) simp
  then have "s \<in> set (filter (\<lambda>s. attr_of s = a) ss)" using f s by simp
  then show ?thesis by simp
qed

lemma last_setter_key:
  "TAG_MAP K = Some (py_setter a f) \<Longrightarrow>
   last_setter a (concat (map entry_setter (recognized out))) =
     map_option (Closure a f) (last_value out K)"
  by (rule last_setter_entries, assumption, erule other_keys, assumption+)

lemma field_after:
  assumes K: "TAG_MAP K = Some (py_setter a f)"
    and ex: "metaflac_stdout_to_setters out = Inr ss"
    and ap: "apply_setters u ss t = Inr t'"
  shows "map_of t' a =
         (case last_value out K of None \<Rightarrow> map_of t a | Some v \<Rightarrow> assigned u (Closure a f v))"
  using apply_last[OF ap, of a] last_setter_key[OF K, of out] extract_Inr[OF ex]
  by (auto split: option.splits)

lemma field_defined:
  assumes K: "TAG_MAP K = Some (py_setter a f)"
    and ex: "metaflac_stdout_to_setters out = Inr ss"
    and ap: "apply_setters u ss t = Inr t'"
    and lv: "last_value out K = Some v"
  shows "assigned u (Closure a f v) \<noteq> None"
proof
  assume n: "assigned u (Closure a f v) = None"
  have "last_setter a ss = Some (Closure a f v)"
    using last_setter_key[OF K, of out] extract_Inr[OF ex] lv by simp
  then have "Closure a f v \<in> set ss" by (rule last_setter_mem)
  then have "apply_setters u ss t = Inl ValueError" using n by (rule apply_setters_fails)
  then show False using ap by simp
qed

subsection \<open>One assignment per recognised line\<close>

text \<open>
  C6, in the form the code satisfies. The extractor returns one deferred assignment for every comment line
  whose key is recognised, in the order of the lines and for every occurrence of a key,
  and none for any other line; it raises only when a recognised value is not UTF-8.
\<close>

theorem extractor_one_per_recognized_line:
  "metaflac_stdout_to_setters out =
     (if \<forall>e \<in> set (recognized out). utf8_ok (map ord (snd e))
      then Inr (concat (map entry_setter (recognized out)))
      else Inl UnicodeDecodeError) \<and>
   length (concat (map entry_setter (recognized out))) = length (recognized out)"
  using extract_char length_entry_setters by blast

theorem extractor_one_per_recognized_line_witness:
  "recognized example_listing = [(''TITLE'', ''Foo''), (''ARTIST'', ''Bar'')] \<and>
   utf8_ok (map ord ''Foo'') \<and> utf8_ok (map ord ''Bar'') \<and>
   metaflac_stdout_to_setters example_listing =
     Inr [Closure ''title'' Ident ''Foo'', Closure ''artist'' Ident ''Bar'']"
proof -
  have u: "\<forall>e \<in> set (recognized example_listing). utf8_ok (map ord (snd e))"
    unfolding recognized_example by code_simp
  have c: "concat (map entry_setter (recognized example_listing)) =
             [Closure ''title'' Ident ''Foo'', Closure ''artist'' Ident ''Bar'']"
    unfolding recognized_example by code_simp
  have v: "utf8_ok (map ord ''Foo'') \<and> utf8_ok (map ord ''Bar'')"
    by code_simp
  show ?thesis
    using extractor_one_per_recognized_line[of example_listing] u c v recognized_example
    by simp
qed

text \<open>
  A listing that repeats a key gets one assignment per occurrence, not one for the
  first occurrence only: two lines with the key TITLE give two assignments to the title.
\<close>

theorem extractor_first_occurrence_counterexample:
  "metaflac_stdout_to_setters dup_listing =
     Inr [Closure ''title'' Ident ''A'', Closure ''title'' Ident ''B'',
          Closure ''track_num'' IntNone ''7''] \<and>
   remdups (map fst (recognized dup_listing)) = [''TITLE'', ''TRACKNUMBER'']"
  by code_simp

subsection \<open>The last occurrence of a key wins\<close>

text \<open>
  C7. When the assignments extracted from a listing have all been applied to a tag
  container, each of the six fields holds the value of the last line of the listing with
  its key (the track number as the pair of the parsed integer and no total), a field
  whose key does not occur keeps what it held, and no other attribute is touched.
\<close>

theorem last_occurrence_wins:
  assumes ex: "metaflac_stdout_to_setters out = Inr ss"
    and ap: "apply_setters u ss t = Inr t'"
  shows
   "map_of t' ''title'' = (case last_value out ''TITLE'' of None \<Rightarrow> map_of t ''title'' | Some v \<Rightarrow> Some (PStr v)) \<and>
    map_of t' ''artist'' = (case last_value out ''ARTIST'' of None \<Rightarrow> map_of t ''artist'' | Some v \<Rightarrow> Some (PStr v)) \<and>
    map_of t' ''album'' = (case last_value out ''ALBUM'' of None \<Rightarrow> map_of t ''album'' | Some v \<Rightarrow> Some (PStr v)) \<and>
    map_of t' ''year'' = (case last_value out ''DATE'' of None \<Rightarrow> map_of t ''year'' | Some v \<Rightarrow> Some (PStr v)) \<and>
    map_of t' ''album_artist'' =
      (case last_value out ''ALBUMARTIST'' of None \<Rightarrow> map_of t ''album_artist'' | Some v \<Rightarrow> Some (PStr v)) \<and>
    (case last_value out ''TRACKNUMBER'' of
       None \<Rightarrow> map_of t' ''track_num'' = map_of t ''track_num''
     | Some v \<Rightarrow> (\<exists>n. py_int u v = Inr n \<and> map_of t' ''track_num'' = Some (PTrack n None))) \<and>
    (\<forall>a. a \<notin> {''title'', ''artist'', ''album'', ''track_num'', ''year'', ''album_artist''}
        \<longrightarrow> map_of t' a = map_of t a)"
proof -
  have k1: "TAG_MAP ''TITLE'' = Some (py_setter ''title'' Ident)" by (simp add: TAG_MAP_def)
  have k2: "TAG_MAP ''ARTIST'' = Some (py_setter ''artist'' Ident)" by (simp add: TAG_MAP_def)
  have k3: "TAG_MAP ''ALBUM'' = Some (py_setter ''album'' Ident)" by (simp add: TAG_MAP_def)
  have k4: "TAG_MAP ''DATE'' = Some (py_setter ''year'' Ident)" by (simp add: TAG_MAP_def)
  have k5: "TAG_MAP ''ALBUMARTIST'' = Some (py_setter ''album_artist'' Ident)" by (simp add: TAG_MAP_def)
  have k6: "TAG_MAP ''TRACKNUMBER'' = Some (py_setter ''track_num'' IntNone)" by (simp add: TAG_MAP_def)
  have c1: "map_of t' ''title'' = (case last_value out ''TITLE'' of None \<Rightarrow> map_of t ''title'' | Some v \<Rightarrow> Some (PStr v))"
    using field_after[OF k1 ex ap] by (simp split: option.splits)
  have c2: "map_of t' ''artist'' = (case last_value out ''ARTIST'' of None \<Rightarrow> map_of t ''artist'' | Some v \<Rightarrow> Some (PStr v))"
    using field_after[OF k2 ex ap] by (simp split: option.splits)
  have c3: "map_of t' ''album'' = (case last_value out ''ALBUM'' of None \<Rightarrow> map_of t ''album'' | Some v \<Rightarrow> Some (PStr v))"
    using field_after[OF k3 ex ap] by (simp split: option.splits)
  have c4: "map_of t' ''year'' = (case last_value out ''DATE'' of None \<Rightarrow> map_of t ''year'' | Some v \<Rightarrow> Some (PStr v))"
    using field_after[OF k4 ex ap] by (simp split: option.splits)
  have c5: "map_of t' ''album_artist'' =
      (case last_value out ''ALBUMARTIST'' of None \<Rightarrow> map_of t ''album_artist'' | Some v \<Rightarrow> Some (PStr v))"
    using field_after[OF k5 ex ap] by (simp split: option.splits)
  have c6: "(case last_value out ''TRACKNUMBER'' of
       None \<Rightarrow> map_of t' ''track_num'' = map_of t ''track_num''
     | Some v \<Rightarrow> (\<exists>n. py_int u v = Inr n \<and> map_of t' ''track_num'' = Some (PTrack n None)))"
  proof (cases "last_value out ''TRACKNUMBER''")
    case None
    then show ?thesis using field_after[OF k6 ex ap] by simp
  next
    case (Some v)
    have "assigned u (Closure ''track_num'' IntNone v) \<noteq> None"
      by (rule field_defined[OF k6 ex ap Some])
    then obtain n where "py_int u v = Inr n" by (auto split: sum.splits)
    then show ?thesis using field_after[OF k6 ex ap] Some by simp
  qed
  have c7: "\<forall>a. a \<notin> {''title'', ''artist'', ''album'', ''track_num'', ''year'', ''album_artist''}
        \<longrightarrow> map_of t' a = map_of t a"
    using apply_last[OF ap] ls_other extract_Inr[OF ex] by simp
  show ?thesis using c1 c2 c3 c4 c5 c6 c7 by blast
qed

lemma apply_dup:
  "apply_setters u [Closure ''title'' Ident ''A'', Closure ''title'' Ident ''B'',
          Closure ''track_num'' IntNone ''7''] [] =
   Inr [(''title'', PStr ''B''), (''track_num'', PTrack 7 None)]"
  by (simp add: py_int_7)

lemma lv_dup: "last_value dup_listing ''TITLE'' = Some ''B''" "last_value dup_listing ''TRACKNUMBER'' = Some ''7''"
  unfolding last_value_def recognized_dup by simp_all

theorem last_occurrence_wins_witness:
  "metaflac_stdout_to_setters dup_listing =
     Inr [Closure ''title'' Ident ''A'', Closure ''title'' Ident ''B'',
          Closure ''track_num'' IntNone ''7''] \<and>
   apply_setters sample_interpreter
     [Closure ''title'' Ident ''A'', Closure ''title'' Ident ''B'',
      Closure ''track_num'' IntNone ''7''] [] =
     Inr [(''title'', PStr ''B''), (''track_num'', PTrack 7 None)] \<and>
   last_value dup_listing ''TITLE'' = Some ''B'' \<and>
   last_value dup_listing ''TRACKNUMBER'' = Some ''7'' \<and>
   py_int sample_interpreter ''7'' = Inr 7"
  using last_occurrence_wins[OF setters_dup apply_dup[of sample_interpreter]] setters_dup
    apply_dup[of sample_interpreter] lv_dup py_int_7[of sample_interpreter]
  by simp


section \<open>Properties of the per-file pipeline\<close>

lemma map_of_created:
  "map_of (foldr create_file ps fs) q = (if q \<in> set ps then Some (File []) else map_of fs q)"
  by (induction ps) (auto simp: create_file_def update_conv')

lemma get_tag_setters_eq:
  "get_tag_setters w st p =
     (emit (Exec (metaflac_cmd_args p)) st,
      metaflac_stdout_to_setters (proc_stdout w (metaflac_cmd_args p)))"
  by (simp add: get_tag_setters_def Let_def)

lemma upt_2: "[0..<Suc (Suc 0)] = [0, Suc 0]"
  by (simp add: upt_rec)

lemma pipe_cmds_eq:
  "pipe_cmds w st c1 c2 =
     (emit (Pipe [c1, c2]) (st\<lparr>files := foldr create_file (chain_creates w [c1, c2]) (files st)\<rparr>),
      Inr (exit_code w [c1, c2] 1))"
  by (simp add: pipe_cmds_def chain_def call_async_def last_item_def upt_2 Let_def)

lemma trace_emit [simp]: "trace (emit e st) = trace st @ [e]"
  by (simp add: emit_def)

lemma files_emit [simp]: "files (emit e st) = files st"
  by (simp add: emit_def)

lemma new_events_app: "trace st' = trace st @ evs \<Longrightarrow> new_events st st' = evs"
  by (simp add: new_events_def)

lemma chain_done_files:
  "files (chain_done w st p m) =
     foldr create_file (chain_creates w [flac_args p, lame_args m]) (files st)"
  by (simp add: chain_done_def pipe_cmds_eq)

lemma chain_done_trace:
  "trace (chain_done w st p m) =
     trace st @ [Exec (metaflac_cmd_args p), Exec (metaflac_cmd_args p),
                 Pipe [flac_args p, lame_args m]]"
  by (simp add: chain_done_def pipe_cmds_eq)

lemma chain_done_lookup:
  "map_of (files (chain_done w st p m)) q =
     (if q \<in> set (chain_creates w [flac_args p, lame_args m]) then Some (File [])
      else map_of (files st) q)"
  by (simp add: chain_done_files map_of_created)

lemma convert_file_only_eq:
  "convert_file_only w st1 p m =
     (case metaflac_stdout_to_setters (proc_stdout w (metaflac_cmd_args p)) of
        Inl e \<Rightarrow> (emit (Exec (metaflac_cmd_args p)) st1, Inl e)
      | Inr ss \<Rightarrow>
          (let st2 = fst (pipe_cmds w (emit (Exec (metaflac_cmd_args p)) st1) (flac_args p) (lame_args m))
           in if exit_code w [flac_args p, lame_args m] 1 \<noteq> 0
              then (remove_quietly st2 m, Inl RuntimeError) else (st2, Inr ())))"
  by (simp add: convert_file_only_def get_tag_setters_eq pipe_cmds_eq Let_def split: sum.splits)

lemma body_decode_error:
  assumes "metaflac_stdout_to_setters (proc_stdout w (metaflac_cmd_args p)) = Inl e"
  shows "convert_flac_body w st p m =
           (emit (Exec (metaflac_cmd_args p)) (emit (Exec (metaflac_cmd_args p)) st),
            Inl UnicodeDecodeError)"
proof -
  have e: "e = UnicodeDecodeError"
    using assms by (auto simp: metaflac_stdout_to_setters_def dest: collect_err)
  show ?thesis
    using assms e
    by (simp add: convert_flac_body_def get_tag_setters_eq convert_file_only_eq gather2_def)
qed

lemma body_transcode_failed:
  assumes "metaflac_stdout_to_setters (proc_stdout w (metaflac_cmd_args p)) = Inr ss"
    and "exit_code w [flac_args p, lame_args m] 1 \<noteq> 0"
  shows "convert_flac_body w st p m = (remove_quietly (chain_done w st p m) m, Inr None)"
  using assms
  by (simp add: convert_flac_body_def get_tag_setters_eq convert_file_only_eq gather2_def
      chain_done_def Let_def)

lemma body_transcode_ok:
  assumes "metaflac_stdout_to_setters (proc_stdout w (metaflac_cmd_args p)) = Inr ss"
    and "exit_code w [flac_args p, lame_args m] 1 = 0"
  shows "convert_flac_body w st p m =
           (case set_tags w (chain_done w st p m) m ss of
              (st3, Inl e) \<Rightarrow> (st3, Inl e)
            | (st3, Inr u) \<Rightarrow>
                (case os_remove st3 p of
                   Inl e \<Rightarrow> (st3, Inl e)
                 | Inr st4 \<Rightarrow> (st4, Inr (Some m))))"
  using assms
  by (simp add: convert_flac_body_def get_tag_setters_eq convert_file_only_eq gather2_def
      chain_done_def Let_def)

lemma remove_quietly_absent:
  "map_of (files st) m = None \<Longrightarrow> remove_quietly st m = st"
  by (simp add: remove_quietly_def os_remove_def)

lemma remove_quietly_file:
  "map_of (files st) m = Some (File t) \<Longrightarrow>
   remove_quietly st m = emit (Remove m) (st\<lparr>files := AList.delete m (files st)\<rparr>)"
  by (simp add: remove_quietly_def os_remove_def)

lemma os_remove_Inr:
  "os_remove st p = Inr st4 \<Longrightarrow>
   (\<exists>t. map_of (files st) p = Some (File t)) \<and>
   st4 = emit (Remove p) (st\<lparr>files := AList.delete p (files st)\<rparr>)"
  by (auto simp: os_remove_def split: option.splits node.splits)

lemma set_tags_cases:
  "set_tags w S m ss = (st3, r3) \<Longrightarrow>
     (r3 = Inr () \<and> save_ok w m \<and>
      (\<exists>t t'. load_tag S m = Inr t \<and> apply_setters (python w) ss t = Inr t' \<and>
         st3 = emit (SaveTag m) (S\<lparr>files := AList.update m (File (tag_written w t')) (files S)\<rparr>))) \<or>
     ((\<exists>e. r3 = Inl e) \<and> st3 = S)"
  by (auto simp: set_tags_def split: sum.splits if_splits)

lemma load_tag_chain_done:
  "\<not> exists st m \<Longrightarrow> load_tag (chain_done w st p m) m = Inr t \<Longrightarrow> t = []"
  by (auto simp: load_tag_def chain_done_lookup exists_def split: if_splits option.splits node.splits)



text \<open>The outcome of the failure branch.\<close>

lemma failed_state:
  assumes g: "\<not> exists st m"
  shows "\<not> exists (remove_quietly (chain_done w st p m) m) m \<and>
         (\<forall>q. q \<noteq> m \<longrightarrow> exists st q \<longrightarrow> exists (remove_quietly (chain_done w st p m) m) q) \<and>
         (new_events st (remove_quietly (chain_done w st p m) m) =
            [Exec (metaflac_cmd_args p), Exec (metaflac_cmd_args p), Pipe [flac_args p, lame_args m]] \<or>
          new_events st (remove_quietly (chain_done w st p m) m) =
            [Exec (metaflac_cmd_args p), Exec (metaflac_cmd_args p), Pipe [flac_args p, lame_args m],
             Remove m])"
proof (cases "m \<in> set (chain_creates w [flac_args p, lame_args m])")
  case True
  then have f: "map_of (files (chain_done w st p m)) m = Some (File [])"
    by (simp add: chain_done_lookup)
  show ?thesis
    unfolding remove_quietly_file[OF f]
    by (auto simp: exists_def delete_conv' chain_done_lookup new_events_def chain_done_trace)
next
  case False
  then have f: "map_of (files (chain_done w st p m)) m = None"
    using g by (simp add: chain_done_lookup exists_def)
  show ?thesis
    unfolding remove_quietly_absent[OF f]
    using f by (auto simp: exists_def chain_done_lookup new_events_def chain_done_trace)
qed


lemma tag_saved_lookup:
  "map_of (files (tag_saved w st p m t)) q =
     (if q = m then Some (File (tag_written w t)) else map_of (files (chain_done w st p m)) q)"
  by (simp add: tag_saved_def update_conv')

lemma removed_trace:
  "new_events st (emit (Remove p) ((tag_saved w st p m t)\<lparr>files := fs\<rparr>)) =
     [Exec (metaflac_cmd_args p), Exec (metaflac_cmd_args p), Pipe [flac_args p, lame_args m],
      SaveTag m, Remove p]"
  by (simp add: new_events_def tag_saved_def chain_done_trace)

lemma commit_cases:
  assumes g: "\<not> exists st m"
    and L: "metaflac_stdout_to_setters (proc_stdout w (metaflac_cmd_args p)) = Inr ss"
    and rc: "exit_code w [flac_args p, lame_args m] 1 = 0"
    and run: "convert_flac_body w st p m = (st', r)"
  shows "((\<exists>e. r = Inl e) \<and> st' = chain_done w st p m) \<or>
         (\<exists>t'. apply_setters (python w) ss [] = Inr t' \<and> save_ok w m \<and>
            ((r = Inl OSError \<and> st' = tag_saved w st p m t') \<or>
             (r = Inr (Some m) \<and> (\<exists>t. map_of (files (tag_saved w st p m t')) p = Some (File t)) \<and>
              st' = emit (Remove p) ((tag_saved w st p m t')
                      \<lparr>files := AList.delete p (files (tag_saved w st p m t'))\<rparr>))))"
proof -
  obtain st3 r3 where s: "set_tags w (chain_done w st p m) m ss = (st3, r3)"
    by (cases "set_tags w (chain_done w st p m) m ss")
  from set_tags_cases[OF s] show ?thesis
  proof
    assume ok: "r3 = Inr () \<and> save_ok w m \<and>
      (\<exists>t t'. load_tag (chain_done w st p m) m = Inr t \<and> apply_setters (python w) ss t = Inr t' \<and>
         st3 = emit (SaveTag m) ((chain_done w st p m)\<lparr>files := AList.update m (File (tag_written w t')) (files (chain_done w st p m))\<rparr>))"
    then obtain t t' where ld: "load_tag (chain_done w st p m) m = Inr t"
      and ap: "apply_setters (python w) ss t = Inr t'"
      and st3: "st3 = tag_saved w st p m t'"
      by (auto simp: tag_saved_def)
    have t: "t = []" using load_tag_chain_done[OF g ld] .
    show ?thesis
    proof (cases "os_remove st3 p")
      case (Inl e)
      then have "e = OSError" by (auto simp: os_remove_def split: option.splits node.splits)
      then show ?thesis
        using run body_transcode_ok[OF L rc, of st] s ok Inl ap t st3 by auto
    next
      case (Inr st4)
      from os_remove_Inr[OF Inr] show ?thesis
        using run body_transcode_ok[OF L rc, of st] s ok Inr ap t st3 by auto
    qed
  next
    assume "(\<exists>e. r3 = Inl e) \<and> st3 = chain_done w st p m"
    then show ?thesis
      using run body_transcode_ok[OF L rc, of st] s by auto
  qed
qed

lemma convert_flac_outcomes:
  fixes w st p
  defines "m \<equiv> mp3_path_of p"
    and "L \<equiv> metaflac_stdout_to_setters (proc_stdout w (metaflac_cmd_args p))"
    and "rc \<equiv> exit_code w [flac_args p, lame_args (mp3_path_of p)] 1"
  assumes run: "convert_flac w st p = (st', r)"
  shows
    "(exists st m \<and> r = Inr None \<and> st' = st) \<or>
     (\<not> exists st m \<and> L = Inl UnicodeDecodeError \<and> r = Inl UnicodeDecodeError \<and>
        st' = emit (Exec (metaflac_cmd_args p)) (emit (Exec (metaflac_cmd_args p)) st)) \<or>
     (\<not> exists st m \<and> (\<exists>ss. L = Inr ss) \<and> rc \<noteq> 0 \<and> r = Inr None \<and>
        st' = remove_quietly (chain_done w st p m) m) \<or>
     (\<not> exists st m \<and> (\<exists>ss. L = Inr ss) \<and> rc = 0 \<and> (\<exists>e. r = Inl e) \<and>
        st' = chain_done w st p m) \<or>
     (\<not> exists st m \<and> rc = 0 \<and>
        (\<exists>ss t'. L = Inr ss \<and> apply_setters (python w) ss [] = Inr t' \<and> save_ok w m \<and>
           r = Inl OSError \<and> st' = tag_saved w st p m t')) \<or>
     (\<not> exists st m \<and> rc = 0 \<and>
        (\<exists>ss t'. L = Inr ss \<and> apply_setters (python w) ss [] = Inr t' \<and> save_ok w m \<and>
           r = Inr (Some m) \<and> (\<exists>t. map_of (files (tag_saved w st p m t')) p = Some (File t)) \<and>
           st' = emit (Remove p) ((tag_saved w st p m t')
                      \<lparr>files := AList.delete p (files (tag_saved w st p m t'))\<rparr>)))"
proof (cases "exists st m")
  case True
  then show ?thesis using run by (simp add: convert_flac_def m_def Let_def)
next
  case g: False
  have body: "convert_flac_body w st p m = (st', r)"
    using run g by (simp add: convert_flac_def m_def Let_def)
  show ?thesis
  proof (cases L)
    case (Inl e)
    then have "convert_flac_body w st p m =
           (emit (Exec (metaflac_cmd_args p)) (emit (Exec (metaflac_cmd_args p)) st),
            Inl UnicodeDecodeError)"
      unfolding L_def by (rule body_decode_error)
    moreover have "e = UnicodeDecodeError"
      using Inl unfolding L_def by (auto simp: metaflac_stdout_to_setters_def dest: collect_err)
    ultimately show ?thesis using body g Inl by simp
  next
    case (Inr ss)
    show ?thesis
    proof (cases "rc = 0")
      case False
      then have "convert_flac_body w st p m = (remove_quietly (chain_done w st p m) m, Inr None)"
        using Inr unfolding L_def rc_def m_def by (intro body_transcode_failed) auto
      then show ?thesis using body g Inr False by simp
    next
      case True
      have "((\<exists>e. r = Inl e) \<and> st' = chain_done w st p m) \<or>
         (\<exists>t'. apply_setters (python w) ss [] = Inr t' \<and> save_ok w m \<and>
            ((r = Inl OSError \<and> st' = tag_saved w st p m t') \<or>
             (r = Inr (Some m) \<and> (\<exists>t. map_of (files (tag_saved w st p m t')) p = Some (File t)) \<and>
              st' = emit (Remove p) ((tag_saved w st p m t')
                      \<lparr>files := AList.delete p (files (tag_saved w st p m t'))\<rparr>))))"
        using g Inr True body unfolding L_def rc_def m_def by (intro commit_cases) auto
      then show ?thesis using g Inr True by blast
    qed
  qed
qed

lemma new_events_none: "new_events st st = []"
  by (simp add: new_events_def)

lemma new_events_two: "new_events st (emit e2 (emit e1 st)) = [e1, e2]"
  by (simp add: new_events_def)


lemma run_failed:
  "convert_flac (sample_world dup_listing 0 3 True) sample_state sample_flac =
     (sample_failed, Inr None)"
  by code_simp

lemma run_committed:
  "convert_flac (sample_world dup_listing 0 0 True) sample_state sample_flac =
     (sample_committed, Inr (Some sample_mp3))"
  by code_simp

lemma run_masked:
  "convert_flac (sample_world dup_listing 1 0 True) sample_state sample_flac =
     (sample_committed, Inr (Some sample_mp3))"
  by code_simp

lemma run_seven:
  "convert_flac (sample_world seven_listing 0 0 True) sample_state sample_flac =
     (sample_untagged, Inl ValueError)"
  by code_simp

lemma sample_src: "exists sample_state sample_flac"
  by code_simp

lemma sample_mp3_path: "mp3_path_of sample_flac = sample_mp3"
  by code_simp

subsection \<open>Transcode failure\<close>

text \<open>
  C1. When the pipeline of an existing source file has launched the transcode chain and
  the second stage (lame) exits with a non-zero code, the pipeline returns without a
  result and without raising, the output path does not exist afterwards (the removal
  is attempted and its failure ignored), and the source file still exists: the run has
  not removed it.
\<close>

theorem transcode_failure_rollback:
  assumes run: "convert_flac w st p = (st', r)"
    and src: "exists st p"
    and launched: "Pipe [flac_args p, lame_args (mp3_path_of p)] \<in> set (new_events st st')"
    and failed: "exit_code w [flac_args p, lame_args (mp3_path_of p)] 1 \<noteq> 0"
  shows "r = Inr None \<and> \<not> exists st' (mp3_path_of p) \<and> exists st' p \<and>
         Remove p \<notin> set (new_events st st')"
proof -
  let ?m = "mp3_path_of p"
  from convert_flac_outcomes[OF run] failed launched
  have c: "\<not> exists st ?m \<and> r = Inr None \<and> st' = remove_quietly (chain_done w st p ?m) ?m"
    by (auto simp: new_events_none new_events_two)
  then have g: "\<not> exists st ?m" by simp
  have ne: "p \<noteq> ?m" using src g by auto
  from failed_state[OF g, of w p] c src ne show ?thesis by auto
qed

theorem transcode_failure_rollback_witness:
  "convert_flac (sample_world dup_listing 0 3 True) sample_state sample_flac =
     (sample_failed, Inr None) \<and>
   exists sample_state sample_flac \<and>
   Pipe [flac_args sample_flac, lame_args (mp3_path_of sample_flac)]
     \<in> set (new_events sample_state sample_failed) \<and>
   exit_code (sample_world dup_listing 0 3 True)
     [flac_args sample_flac, lame_args (mp3_path_of sample_flac)] 1 \<noteq> 0 \<and>
   \<not> exists sample_failed (mp3_path_of sample_flac) \<and>
   exists sample_failed sample_flac \<and>
   Remove sample_flac \<notin> set (new_events sample_state sample_failed)"
proof -
  have l: "Pipe [flac_args sample_flac, lame_args (mp3_path_of sample_flac)]
     \<in> set (new_events sample_state sample_failed)"
    by code_simp
  have f: "exit_code (sample_world dup_listing 0 3 True)
     [flac_args sample_flac, lame_args (mp3_path_of sample_flac)] 1 \<noteq> 0"
    by code_simp
  show ?thesis
    using transcode_failure_rollback[OF run_failed sample_src l f] run_failed sample_src l f
    by simp
qed


subsection \<open>Order of commit\<close>





subsection \<open>The listing is extracted twice\<close>

lemma committed_facts:
  assumes run: "convert_flac w st p = (st', Inr (Some x))"
    and src: "exists st p"
  shows "x = mp3_path_of p \<and>
         exit_code w [flac_args p, lame_args (mp3_path_of p)] 1 = 0 \<and>
         new_events st st' =
           [Exec (metaflac_cmd_args p), Exec (metaflac_cmd_args p),
            Pipe [flac_args p, lame_args (mp3_path_of p)], SaveTag (mp3_path_of p), Remove p] \<and>
         (\<exists>ss t'. metaflac_stdout_to_setters (proc_stdout w (metaflac_cmd_args p)) = Inr ss \<and>
                apply_setters (python w) ss [] = Inr t' \<and>
                map_of (files st') (mp3_path_of p) = Some (File (tag_written w t')))"
proof -
  let ?m = "mp3_path_of p"
  from convert_flac_outcomes[OF run]
  obtain ss t' where g: "\<not> exists st ?m" and x: "x = ?m"
    and rc: "exit_code w [flac_args p, lame_args ?m] 1 = 0"
    and L: "metaflac_stdout_to_setters (proc_stdout w (metaflac_cmd_args p)) = Inr ss"
    and ap: "apply_setters (python w) ss [] = Inr t'"
    and st': "st' = emit (Remove p) ((tag_saved w st p ?m t')
                      \<lparr>files := AList.delete p (files (tag_saved w st p ?m t'))\<rparr>)"
    by auto
  have ne: "p \<noteq> ?m" using src g by auto
  have ev: "new_events st st' =
           [Exec (metaflac_cmd_args p), Exec (metaflac_cmd_args p),
            Pipe [flac_args p, lame_args ?m], SaveTag ?m, Remove p]"
    unfolding st' by (rule removed_trace)
  have out: "map_of (files st') ?m = Some (File (tag_written w t'))"
    unfolding st' using ne by (simp add: delete_conv' tag_saved_lookup)
  show ?thesis using x rc ev L ap out by blast
qed

text \<open>
  C10. In a run that converts an existing source file, the metadata listing is run and
  parsed twice: once by the extraction that the pipeline awaits itself and once more by
  the conversion, before it starts the chain. The conversion returns no assignments and
  does the same whatever assignments its own listing holds; the tag that is saved is
  built from the assignments of the pipeline's own extraction.
\<close>

theorem extraction_runs_twice:
  assumes run: "convert_flac w st p = (st', Inr (Some x))"
    and src: "exists st p"
  shows
   "count_list (new_events st st') (Exec (metaflac_cmd_args p)) = 2 \<and>
    new_events st (fst (get_tag_setters w st p)) = [Exec (metaflac_cmd_args p)] \<and>
    new_events (fst (get_tag_setters w st p))
       (fst (convert_file_only w (fst (get_tag_setters w st p)) p (mp3_path_of p))) =
      [Exec (metaflac_cmd_args p), Pipe [flac_args p, lame_args (mp3_path_of p)]] \<and>
    snd (convert_file_only w (fst (get_tag_setters w st p)) p (mp3_path_of p)) = Inr () \<and>
    (\<forall>f ss'. metaflac_stdout_to_setters (f (metaflac_cmd_args p)) = Inr ss' \<longrightarrow>
       convert_file_only (w\<lparr>proc_stdout := f\<rparr>) (fst (get_tag_setters w st p)) p (mp3_path_of p) =
       convert_file_only w (fst (get_tag_setters w st p)) p (mp3_path_of p)) \<and>
    (\<exists>ss t'. snd (get_tag_setters w st p) = Inr ss \<and> apply_setters (python w) ss [] = Inr t' \<and>
             map_of (files st') (mp3_path_of p) = Some (File (tag_written w t')))"
proof -
  let ?m = "mp3_path_of p"
  from committed_facts[OF run src]
  have ev: "new_events st st' =
         [Exec (metaflac_cmd_args p), Exec (metaflac_cmd_args p),
          Pipe [flac_args p, lame_args ?m], SaveTag ?m, Remove p]"
    and rc: "exit_code w [flac_args p, lame_args ?m] 1 = 0"
    and ex: "\<exists>ss t'. metaflac_stdout_to_setters (proc_stdout w (metaflac_cmd_args p)) = Inr ss \<and>
                apply_setters (python w) ss [] = Inr t' \<and> map_of (files st') ?m = Some (File (tag_written w t'))"
    by blast+
  have c: "count_list (new_events st st') (Exec (metaflac_cmd_args p)) = 2"
    unfolding ev by simp
  from ex obtain ss t' where L: "metaflac_stdout_to_setters (proc_stdout w (metaflac_cmd_args p)) = Inr ss"
    and ap: "apply_setters (python w) ss [] = Inr t'" and f: "map_of (files st') ?m = Some (File (tag_written w t'))"
    by blast
  have inner: "convert_file_only w (emit (Exec (metaflac_cmd_args p)) st) p ?m =
      (fst (pipe_cmds w (emit (Exec (metaflac_cmd_args p)) (emit (Exec (metaflac_cmd_args p)) st))
            (flac_args p) (lame_args ?m)), Inr ())"
    using L rc by (simp add: convert_file_only_eq Let_def)
  have indep: "\<forall>f ss'. metaflac_stdout_to_setters (f (metaflac_cmd_args p)) = Inr ss' \<longrightarrow>
       convert_file_only (w\<lparr>proc_stdout := f\<rparr>) (emit (Exec (metaflac_cmd_args p)) st) p ?m =
       convert_file_only w (emit (Exec (metaflac_cmd_args p)) st) p ?m"
    using L by (simp add: convert_file_only_eq pipe_cmds_eq Let_def)
  show ?thesis
    using c L ap f inner indep
    by (simp add: get_tag_setters_eq new_events_def pipe_cmds_eq)
qed

theorem extraction_runs_twice_witness:
  "convert_flac (sample_world dup_listing 0 0 True) sample_state sample_flac =
     (sample_committed, Inr (Some sample_mp3)) \<and>
   exists sample_state sample_flac \<and>
   count_list (new_events sample_state sample_committed) (Exec (metaflac_cmd_args sample_flac)) = 2"
  using extraction_runs_twice[OF run_committed sample_src] run_committed sample_src
  by simp


subsection \<open>The process chain\<close>

text \<open>
  C8. The chain holds the first command and then the second, in this order, and the
  value returned is the exit code of the second stage; the conversion raises its
  failure exactly when the listing was extracted and that second code is not 0, whatever
  the exit code of the first stage is.
\<close>

theorem pipe_returns_last_exit_code:
  "pipe_cmds w st c1 c2 =
     (emit (Pipe [c1, c2])
        (st\<lparr>files := foldr create_file (chain_creates w [c1, c2]) (files st)\<rparr>),
      Inr (exit_code w [c1, c2] 1)) \<and>
   (snd (convert_file_only w st p m) = Inl RuntimeError) =
     ((\<exists>ss. metaflac_stdout_to_setters (proc_stdout w (metaflac_cmd_args p)) = Inr ss) \<and>
      exit_code w [flac_args p, lame_args m] 1 \<noteq> 0)"
proof -
  have "(snd (convert_file_only w st p m) = Inl RuntimeError) =
     ((\<exists>ss. metaflac_stdout_to_setters (proc_stdout w (metaflac_cmd_args p)) = Inr ss) \<and>
      exit_code w [flac_args p, lame_args m] 1 \<noteq> 0)"
  proof (cases "metaflac_stdout_to_setters (proc_stdout w (metaflac_cmd_args p))")
    case (Inl e)
    then have "e = UnicodeDecodeError"
      by (auto simp: metaflac_stdout_to_setters_def dest: collect_err)
    then show ?thesis using Inl by (simp add: convert_file_only_eq)
  next
    case (Inr ss)
    then show ?thesis by (simp add: convert_file_only_eq Let_def)
  qed
  then show ?thesis using pipe_cmds_eq by blast
qed

theorem pipe_returns_last_exit_code_witness:
  "snd (pipe_cmds (sample_world dup_listing 1 0 True) sample_state
          (flac_args sample_flac) (lame_args sample_mp3)) = Inr 0 \<and>
   exit_code (sample_world dup_listing 1 0 True)
     [flac_args sample_flac, lame_args sample_mp3] 0 = 1 \<and>
   snd (convert_file_only (sample_world dup_listing 1 0 True) sample_state sample_flac sample_mp3)
     = Inr ()"
proof -
  have a: "exit_code (sample_world dup_listing 1 0 True)
     [flac_args sample_flac, lame_args sample_mp3] 1 = 0"
    by code_simp
  have b: "exit_code (sample_world dup_listing 1 0 True)
     [flac_args sample_flac, lame_args sample_mp3] 0 = 1"
    by code_simp
  have c: "snd (convert_file_only (sample_world dup_listing 1 0 True) sample_state sample_flac sample_mp3)
     = Inr ()"
    by code_simp
  show ?thesis
    using pipe_returns_last_exit_code[of "sample_world dup_listing 1 0 True" sample_state
        "flac_args sample_flac" "lame_args sample_mp3"] a b c
    by simp
qed

subsection \<open>When the track number is parsed\<close>

text \<open>
  C3, in the form the code satisfies. The extraction of a listing does not parse the
  track number. For a listing whose recognised values are valid UTF-8 and that has a
  TRACKNUMBER line whose value \<^verbatim>\<open>int\<close> refuses, the extraction returns normally, with
  a deferred assignment that holds the unparsed value; so does the extraction step of a
  file with this listing. The integer is parsed when the assignments are applied to the
  tag: applying them raises the error of \<^verbatim>\<open>int\<close>, and so does \<^verbatim>\<open>set_tags\<close> on a
  loaded tag, before anything is saved.
\<close>

theorem track_number_parse_deferred:
  assumes tn: "(''TRACKNUMBER'', v) \<in> set (recognized out)"
    and bad: "py_int (python w) v = Inl ValueError"
    and utf: "list_all (\<lambda>e. utf8_ok (map ord (snd e))) (recognized out)"
  shows "\<exists>ss. metaflac_stdout_to_setters out = Inr ss \<and>
              Closure ''track_num'' IntNone v \<in> set ss \<and>
              (\<forall>st p. proc_stdout w (metaflac_cmd_args p) = out \<longrightarrow>
                 get_tag_setters w st p = (emit (Exec (metaflac_cmd_args p)) st, Inr ss)) \<and>
              (\<forall>t. apply_setters (python w) ss t = Inl ValueError) \<and>
              (\<forall>st q t. load_tag st q = Inr t \<longrightarrow> set_tags w st q ss = (st, Inl ValueError))"
proof -
  let ?ss = "concat (map entry_setter (recognized out))"
  have ex: "metaflac_stdout_to_setters out = Inr ?ss"
    using utf by (simp add: extract_char list_all_iff)
  have mem: "Closure ''track_num'' IntNone v \<in> set ?ss"
    using tn entry_setter_track[of v] by force
  have none: "assigned (python w) (Closure ''track_num'' IntNone v) = None" using bad by simp
  have ap: "\<And>t. apply_setters (python w) ?ss t = Inl ValueError"
    using apply_setters_fails[OF mem none] .
  have g: "\<forall>st p. proc_stdout w (metaflac_cmd_args p) = out \<longrightarrow>
             get_tag_setters w st p = (emit (Exec (metaflac_cmd_args p)) st, Inr ?ss)"
    using ex by (simp add: get_tag_setters_eq)
  have s: "\<forall>st q t. load_tag st q = Inr t \<longrightarrow> set_tags w st q ?ss = (st, Inl ValueError)"
    using ap by (simp add: set_tags_def)
  show ?thesis using ex mem g ap s by blast
qed

lemma recognized_utf8_seven:
  "list_all (\<lambda>e. utf8_ok (map ord (snd e))) (recognized seven_listing)"
  unfolding recognized_seven by (simp add: ord_def)

theorem track_number_parse_deferred_witness:
  "(''TRACKNUMBER'', ''seven'') \<in> set (recognized seven_listing) \<and>
   py_int (python (sample_world seven_listing 0 0 True)) ''seven'' = Inl ValueError \<and>
   list_all (\<lambda>e. utf8_ok (map ord (snd e))) (recognized seven_listing) \<and>
   metaflac_stdout_to_setters seven_listing =
     Inr [Closure ''title'' Ident ''Foo'', Closure ''track_num'' IntNone ''seven''] \<and>
   get_tag_setters (sample_world seven_listing 0 0 True) sample_state sample_flac =
     (emit sample_exec sample_state,
      Inr [Closure ''title'' Ident ''Foo'', Closure ''track_num'' IntNone ''seven'']) \<and>
   apply_setters (python (sample_world seven_listing 0 0 True))
     [Closure ''title'' Ident ''Foo'', Closure ''track_num'' IntNone ''seven''] [] =
     Inl ValueError \<and>
   set_tags (sample_world seven_listing 0 0 True) sample_untagged sample_mp3
     [Closure ''title'' Ident ''Foo'', Closure ''track_num'' IntNone ''seven''] =
     (sample_untagged, Inl ValueError)"
proof -
  let ?w = "sample_world seven_listing 0 0 True"
  let ?ss = "[Closure ''title'' Ident ''Foo'', Closure ''track_num'' IntNone ''seven'']"
  have tn: "(''TRACKNUMBER'', ''seven'') \<in> set (recognized seven_listing)"
    unfolding recognized_seven by simp
  have out: "proc_stdout ?w (metaflac_cmd_args sample_flac) = seven_listing"
    by (simp add: sample_world_def)
  have ex: "sample_exec = Exec (metaflac_cmd_args sample_flac)"
    by (simp add: sample_exec_def metaflac_cmd_args_def sample_flac_def)
  have ld: "load_tag sample_untagged sample_mp3 = Inr []"
    by (simp add: load_tag_def sample_untagged_def sample_mp3_def)
  from track_number_parse_deferred[OF tn py_int_seven recognized_utf8_seven, of ?w]
  obtain ss where a: "metaflac_stdout_to_setters seven_listing = Inr ss"
    and g: "\<forall>st p. proc_stdout ?w (metaflac_cmd_args p) = seven_listing \<longrightarrow>
              get_tag_setters ?w st p = (emit (Exec (metaflac_cmd_args p)) st, Inr ss)"
    and ap: "\<forall>t. apply_setters (python ?w) ss t = Inl ValueError"
    and s: "\<forall>st q t. load_tag st q = Inr t \<longrightarrow> set_tags ?w st q ss = (st, Inl ValueError)"
    by blast
  have ss: "ss = ?ss" using a setters_seven by simp
  show ?thesis
    using tn py_int_seven[of "python ?w"] recognized_utf8_seven setters_seven
      g[rule_format, OF out, of sample_state] ap[rule_format, of "[]"] s[rule_format, OF ld]
    unfolding ss ex by simp
qed

text \<open>
  The extraction step of a file whose listing has the word seven as its track number
  returns normally, with the unparsed value inside a deferred assignment, although
  \<^verbatim>\<open>int\<close> refuses the word.
\<close>

theorem track_number_eager_counterexample:
  "get_tag_setters (sample_world seven_listing 0 0 True) sample_state sample_flac =
     (emit sample_exec sample_state,
      Inr [Closure ''title'' Ident ''Foo'', Closure ''track_num'' IntNone ''seven'']) \<and>
   metaflac_stdout_to_setters seven_listing =
     Inr [Closure ''title'' Ident ''Foo'', Closure ''track_num'' IntNone ''seven''] \<and>
   py_int (python (sample_world seven_listing 0 0 True)) ''seven'' = Inl ValueError"
  by code_simp

section \<open>Properties of the coordinator and of start-up\<close>

lemma work_only_refl: "work_only st st"
  by (simp add: work_only_def new_events_def)

lemma work_only_trans: "work_only a b \<Longrightarrow> work_only b c \<Longrightarrow> work_only a c"
proof -
  assume ab: "work_only a b" and bc: "work_only b c"
  from ab obtain e1 where b: "trace b = trace a @ e1" and p1: "list_all (\<lambda>e. \<not> is_check e) e1"
    unfolding work_only_def new_events_def by (metis append_take_drop_id)
  from bc obtain e2 where c: "trace c = trace b @ e2" and p2: "list_all (\<lambda>e. \<not> is_check e) e2"
    unfolding work_only_def new_events_def by (metis append_take_drop_id)
  show ?thesis using b c p1 p2 by (simp add: work_only_def new_events_def)
qed

lemma work_only_emit: "\<not> is_check e \<Longrightarrow> work_only st (emit e st)"
  by (simp add: work_only_def new_events_def)

lemma work_only_files: "trace st' = trace st \<Longrightarrow> work_only st st'"
  by (simp add: work_only_def new_events_def)

lemma work_only_emit_files: "\<not> is_check e \<Longrightarrow> work_only st (emit e (st\<lparr>files := fs\<rparr>))"
  by (simp add: work_only_def new_events_def)

lemma not_check_metaflac: "\<not> is_check (Exec (metaflac_cmd_args p))"
  by (simp add: is_check_def metaflac_cmd_args_def)

lemma not_check_simps:
  "\<not> is_check (Pipe c)" "\<not> is_check (SaveTag m)" "\<not> is_check (Remove m)"
  "\<not> is_check (Makedirs m)" "\<not> is_check (Extract z m)"
  by (simp_all add: is_check_def)

lemma work_only_remove_quietly: "work_only st (remove_quietly st m)"
  by (auto simp: remove_quietly_def os_remove_def work_only_refl work_only_emit_files not_check_simps
      split: option.splits node.splits)

lemma work_only_os_remove: "os_remove st p = Inr st' \<Longrightarrow> work_only st st'"
  by (auto simp: os_remove_def work_only_emit_files not_check_simps split: option.splits node.splits)

lemma work_only_set_tags: "set_tags w st m ss = (st', r) \<Longrightarrow> work_only st st'"
  by (auto simp: set_tags_def work_only_refl work_only_emit_files not_check_simps
      split: sum.splits if_splits)

lemma work_only_get_tag_setters: "work_only st (fst (get_tag_setters w st p))"
  by (simp add: get_tag_setters_eq work_only_emit not_check_metaflac)

lemma work_only_pipe_cmds: "work_only st (fst (pipe_cmds w st c1 c2))"
  by (simp add: pipe_cmds_eq work_only_emit_files not_check_simps)

lemma work_only_convert_file_only: "work_only st (fst (convert_file_only w st p m))"
proof -
  let ?s1 = "emit (Exec (metaflac_cmd_args p)) st"
  let ?s2 = "fst (pipe_cmds w ?s1 (flac_args p) (lame_args m))"
  have a: "work_only st ?s1" by (simp add: work_only_emit not_check_metaflac)
  have b: "work_only st ?s2" using a work_only_pipe_cmds work_only_trans by blast
  have c: "work_only st (remove_quietly ?s2 m)"
    using b work_only_remove_quietly work_only_trans by blast
  show ?thesis using a b c
    by (simp add: convert_file_only_eq Let_def split: sum.splits)
qed

lemma work_only_body:
  assumes "convert_flac_body w st p m = (st', r)"
  shows "work_only st st'"
proof -
  obtain s1 r1 where g: "get_tag_setters w st p = (s1, r1)" by (cases "get_tag_setters w st p")
  obtain s2 r2 where c: "convert_file_only w s1 p m = (s2, r2)"
    by (cases "convert_file_only w s1 p m")
  have "work_only st s1" using work_only_get_tag_setters[of st w p] g by simp
  moreover have "work_only s1 s2" using work_only_convert_file_only[of s1 w p m] c by simp
  ultimately have a: "work_only st s2" using work_only_trans by blast
  show ?thesis
  proof (cases "gather2 r1 r2")
    case (Inl e)
    then have "st' = s2" using assms g c
      by (simp add: convert_flac_body_def split: if_splits)
    then show ?thesis using a by simp
  next
    case (Inr x)
    obtain ss u where x: "x = (ss, u)" by (cases x)
    obtain st3 r3 where t: "set_tags w s2 m ss = (st3, r3)" by (cases "set_tags w s2 m ss")
    have b: "work_only st st3" using a work_only_set_tags[OF t] work_only_trans by blast
    show ?thesis
    proof (cases r3)
      case (Inl e)
      then have "st' = st3" using assms g c Inr x t by (simp add: convert_flac_body_def)
      then show ?thesis using b by simp
    next
      case r3: (Inr u')
      show ?thesis
      proof (cases "os_remove st3 p")
        case (Inl e)
        then have "st' = st3" using assms g c Inr x t r3 by (simp add: convert_flac_body_def)
        then show ?thesis using b by simp
      next
        case rm: (Inr st4)
        then have "st' = st4" using assms g c Inr x t r3
          by (simp add: convert_flac_body_def)
        then show ?thesis using b work_only_os_remove[OF rm] work_only_trans by blast
      qed
    qed
  qed
qed

lemma work_only_run_rest: "work_only st (run_rest w st q ts)"
proof (induction ts arbitrary: st)
  case Nil
  then show ?case by (simp add: work_only_refl)
next
  case (Cons t ts)
  obtain p skip where t: "t = (p, skip)" by (cases t)
  obtain s1 r1 where h: "convert_flac_body w st p (mp3_path_of p) = (s1, r1)"
    by (cases "convert_flac_body w st p (mp3_path_of p)")
  have a: "work_only st s1" by (rule work_only_body[OF h])
  have b: "work_only st (run_rest w s1 q ts)"
    by (rule work_only_trans[OF a Cons.IH])
  show ?case using t h b Cons.IH[of st] by simp
qed

lemma work_only_run_tasks: "run_tasks w st ts = (st', r) \<Longrightarrow> work_only st st'"
proof (induction ts arbitrary: st st' r)
  case Nil
  then show ?case by (simp add: work_only_refl)
next
  case (Cons t ts)
  obtain p skip where t: "t = (p, skip)" by (cases t)
  obtain s1 r1 where h: "(if skip then (st, Inr None)
            else convert_flac_body w st p (mp3_path_of p)) = (s1, r1)"
    by (cases "(if skip then (st, Inr None) else convert_flac_body w st p (mp3_path_of p))")
  have a: "work_only st s1"
    using h work_only_body work_only_refl by (auto split: if_splits)
  show ?case
  proof (cases r1)
    case (Inl e)
    then have "st' = run_rest w s1 p ts" using Cons.prems t h by simp
    then show ?thesis using work_only_trans[OF a work_only_run_rest] by simp
  next
    case (Inr x)
    obtain s2 r2 where rt: "run_tasks w s1 ts = (s2, r2)" by (cases "run_tasks w s1 ts")
    have "st' = s2" using Cons.prems t h Inr rt by (auto split: sum.splits)
    then show ?thesis using a Cons.IH[OF rt] work_only_trans by blast
  qed
qed

lemma work_only_makedirs: "makedirs st d = Inr st' \<Longrightarrow> work_only st st'"
  by (auto simp: makedirs_def work_only_emit_files not_check_simps split: if_splits)

lemma work_only_extractall: "work_only st (extractall st z ms d)"
  by (simp add: extractall_def work_only_emit_files not_check_simps)

lemma work_only_unzip: "unzip w st z root = (st', r) \<Longrightarrow> work_only st st'"
  unfolding unzip_def unzip_serial_def Let_def
  by (auto simp: work_only_refl split: sum.splits option.splits if_splits
      dest: work_only_makedirs
      intro: work_only_trans[OF work_only_makedirs work_only_extractall])

lemma work_only_unzip_each: "unzip_each w st root zs = (st', r) \<Longrightarrow> work_only st st'"
proof (induction zs arbitrary: st st' r)
  case Nil
  then show ?case by (simp add: work_only_refl)
next
  case (Cons z zs)
  obtain s1 r1 where u: "unzip w st z root = (s1, r1)" by (cases "unzip w st z root")
  have a: "work_only st s1" by (rule work_only_unzip[OF u])
  obtain s2 r2 where e: "unzip_each w s1 root zs = (s2, r2)" by (cases "unzip_each w s1 root zs")
  have b: "work_only st s2" using a Cons.IH[OF e] work_only_trans by blast
  show ?case using Cons.prems u e a b
    by (auto split: sum.splits option.splits)
qed

lemma work_only_unzip_all: "unzip_all w st root ps d = (st', r) \<Longrightarrow> work_only st st'"
proof (induction ps arbitrary: st st' r)
  case Nil
  then show ?case by (simp add: work_only_refl)
next
  case (Cons p ps)
  show ?case
  proof (cases "get_all_matching st p ''.zip'' d")
    case (Inl e)
    then show ?thesis using Cons.prems by (simp add: work_only_refl)
  next
    case (Inr zs)
    obtain s1 r1 where u: "unzip_each w st root zs = (s1, r1)" by (cases "unzip_each w st root zs")
    have a: "work_only st s1" by (rule work_only_unzip_each[OF u])
    obtain s2 r2 where e: "unzip_all w s1 root ps d = (s2, r2)" by (cases "unzip_all w s1 root ps d")
    have b: "work_only st s2" using a Cons.IH[OF e] work_only_trans by blast
    show ?thesis using Cons.prems Inr u e a b
      by (auto split: sum.splits)
  qed
qed

lemma work_only_main_loop: "main_loop w st root ps d = (st', r) \<Longrightarrow> work_only st st'"
proof -
  assume m: "main_loop w st root ps d = (st', r)"
  obtain s1 r1 where u: "unzip_all w st root ps d = (s1, r1)" by (cases "unzip_all w st root ps d")
  have a: "work_only st s1" by (rule work_only_unzip_all[OF u])
  show ?thesis
  proof (cases r1)
    case (Inl e)
    then show ?thesis using m u a by (simp add: main_loop_def)
  next
    case (Inr fl)
    then have "gather_all w s1 fl = (st', r)" using m u by (simp add: main_loop_def)
    then have "work_only s1 st'" unfolding gather_all_def by (rule work_only_run_tasks)
    then show ?thesis using a work_only_trans by blast
  qed
qed

lemma check_commands_cases:
  assumes "check_commands w st = (st1, r1)"
  shows "files st1 = files st \<and>
         (trace st1 = trace st @ take 1 tool_checks \<or>
          trace st1 = trace st @ take 2 tool_checks \<or>
          trace st1 = trace st @ tool_checks) \<and>
         (r1 = Inr () \<longrightarrow> trace st1 = trace st @ tool_checks) \<and>
         ((\<exists>c \<in> {''flac'', ''lame'', ''metaflac''}. spawn w [c, ''--help''] = None) \<longrightarrow>
            (\<exists>e. r1 = Inl e))"
  using assms
  by (cases "spawn w [''flac'', ''--help'']"; cases "spawn w [''lame'', ''--help'']";
      cases "spawn w [''metaflac'', ''--help'']")
     (auto simp: check_commands_def check_call_def tool_checks_def split: if_splits)

lemma work_only_split:
  "work_only a b \<Longrightarrow> \<exists>evs. trace b = trace a @ evs \<and> list_all (\<lambda>e. \<not> is_check e) evs"
  unfolding work_only_def new_events_def by (metis append_take_drop_id)

lemma count_checks:
  "is_check e \<Longrightarrow> list_all (\<lambda>e. \<not> is_check e) work \<Longrightarrow>
   checks = take 1 tool_checks \<or> checks = take 2 tool_checks \<or> checks = tool_checks \<Longrightarrow>
   count_list (checks @ work) e \<le> 1 \<and>
   (checks = tool_checks \<longrightarrow> e \<in> set tool_checks \<longrightarrow> count_list (checks @ work) e = 1)"
proof -
  assume e: "is_check e" and w: "list_all (\<lambda>e. \<not> is_check e) work"
    and c: "checks = take 1 tool_checks \<or> checks = take 2 tool_checks \<or> checks = tool_checks"
  have "e \<notin> set work" using e w by (auto simp: list_all_iff)
  then have z: "count_list work e = 0" by (simp add: count_list_0_iff)
  show ?thesis using c z by (auto simp: tool_checks_def)
qed

subsection \<open>The availability check\<close>

text \<open>
  C9. In every run of the program the availability checks are the first events, each
  tool is checked at most once and nothing that follows is such a check; the run gets to
  its work only after all three checks, each made exactly once. When one of the tools
  cannot be launched the run ends with an error, without any work and with the file
  system untouched.
\<close>

theorem tools_checked_once_before_work:
  assumes run: "main w st parsed = (st', r)"
  shows "\<exists>checks work.
           new_events st st' = checks @ work \<and>
           (checks = take 1 tool_checks \<or> checks = take 2 tool_checks \<or> checks = tool_checks) \<and>
           list_all (\<lambda>e. \<not> is_check e) work \<and>
           (\<forall>e. is_check e \<longrightarrow> count_list (new_events st st') e \<le> 1) \<and>
           (work \<noteq> [] \<or> r = Inr () \<longrightarrow>
              checks = tool_checks \<and>
              (\<forall>e \<in> set tool_checks. count_list (new_events st st') e = 1)) \<and>
           ((\<exists>c \<in> {''flac'', ''lame'', ''metaflac''}. spawn w [c, ''--help''] = None) \<longrightarrow>
              work = [] \<and> (\<exists>e. r = Inl e) \<and> files st' = files st)"
proof -
  obtain s1 r1 where c: "check_commands w st = (s1, r1)" by (cases "check_commands w st")
  note cc = check_commands_cases[OF c]
  have chk: "\<forall>e \<in> set tool_checks. is_check e" by (simp add: tool_checks_def is_check_def)
  show ?thesis
  proof (cases r1)
    case (Inl e)
    then have st': "st' = s1" and r: "r = Inl e" using run c by (simp_all add: main_def)
    from cc obtain checks where ch: "checks = take 1 tool_checks \<or> checks = take 2 tool_checks \<or> checks = tool_checks"
      and tr: "trace s1 = trace st @ checks" by blast
    have ne: "new_events st st' = checks @ []" using tr st' by (simp add: new_events_def)
    have cnt: "\<forall>e. is_check e \<longrightarrow> count_list (checks @ []) e \<le> 1"
      using count_checks[OF _ _ ch, of _ "[]"] by simp
    show ?thesis
      apply (rule exI[of _ checks], rule exI[of _ "[]"])
      using ne ch cnt r st' cc by auto
  next
    case (Inr u)
    then have r1: "r1 = Inr ()" by simp
    obtain s2 r2 where m: "main_loop w s1 (arg_unpack_dir parsed) (arg_paths parsed) (arg_descend parsed) = (s2, r2)"
      by (cases "main_loop w s1 (arg_unpack_dir parsed) (arg_paths parsed) (arg_descend parsed)")
    have st': "st' = s2" using run c r1 m by (auto simp: main_def split: sum.splits)
    from work_only_split[OF work_only_main_loop[OF m]]
    obtain work where tw: "trace s2 = trace s1 @ work" and nw: "list_all (\<lambda>e. \<not> is_check e) work"
      by blast
    have tr: "trace s1 = trace st @ tool_checks" using cc r1 by simp
    have ne: "new_events st st' = tool_checks @ work" using tr tw st' by (simp add: new_events_def)
    have none: "\<not> (\<exists>c \<in> {''flac'', ''lame'', ''metaflac''}. spawn w [c, ''--help''] = None)"
      using cc r1 by auto
    have cnt: "\<forall>e. is_check e \<longrightarrow> count_list (tool_checks @ work) e \<le> 1"
      using count_checks[OF _ nw, of _ tool_checks] by simp
    have one: "\<forall>e \<in> set tool_checks. count_list (tool_checks @ work) e = 1"
      using count_checks[OF _ nw, of _ tool_checks] chk by simp
    show ?thesis
      apply (rule exI[of _ tool_checks], rule exI[of _ work])
      using ne nw cnt one none by auto
  qed
qed

lemma run_no_lame: "main no_lame_world sample_state sample_args = (sample_checked, Inl RuntimeError)"
  by code_simp

theorem tools_checked_once_before_work_witness:
  "main no_lame_world sample_state sample_args = (sample_checked, Inl RuntimeError) \<and>
   spawn no_lame_world [''lame'', ''--help''] = None \<and>
   new_events sample_state sample_checked = tool_checks \<and>
   files sample_checked = files sample_state"
proof -
  have a: "spawn no_lame_world [''lame'', ''--help''] = None" by code_simp
  have b: "new_events sample_state sample_checked = tool_checks" by code_simp
  have c: "files sample_checked = files sample_state" by code_simp
  show ?thesis
    using tools_checked_once_before_work[OF run_no_lame] run_no_lame a b c by simp
qed


lemma set_tags_err: "set_tags w st m ss = (st', Inl e) \<Longrightarrow> e = IOError \<or> e = ValueError"
  by (auto simp: set_tags_def load_tag_def split: sum.splits if_splits option.splits node.splits
      dest: apply_setters_err)

lemma os_remove_err: "os_remove st p = Inl e \<Longrightarrow> e = OSError"
  by (auto simp: os_remove_def split: option.splits node.splits)

lemma body_no_runtime_error: "snd (convert_flac_body w st p m) \<noteq> Inl RuntimeError"
proof -
  obtain s1 r1 where g: "get_tag_setters w st p = (s1, r1)" by (cases "get_tag_setters w st p")
  obtain s2 r2 where c: "convert_file_only w s1 p m = (s2, r2)"
    by (cases "convert_file_only w s1 p m")
  show ?thesis
  proof (cases "gather2 r1 r2")
    case (Inl e)
    then show ?thesis using g c by (simp add: convert_flac_body_def)
  next
    case (Inr x)
    obtain ss u where x: "x = (ss, u)" by (cases x)
    obtain st3 r3 where t: "set_tags w s2 m ss = (st3, r3)" by (cases "set_tags w s2 m ss")
    show ?thesis
    proof (cases r3)
      case (Inl e)
      then have "e \<noteq> RuntimeError" using set_tags_err t by blast
      then show ?thesis using g c Inr x t Inl by (simp add: convert_flac_body_def)
    next
      case r3: (Inr u')
      show ?thesis
        using g c Inr x t r3 os_remove_err[of st3 p]
        by (auto simp: convert_flac_body_def split: sum.splits)
    qed
  qed
qed

lemma run_tasks_no_runtime_error: "snd (run_tasks w st ts) \<noteq> Inl RuntimeError"
proof (induction ts arbitrary: st)
  case Nil
  then show ?case by simp
next
  case (Cons t ts)
  obtain p skip where t: "t = (p, skip)" by (cases t)
  show ?case
  proof (cases skip)
    case True
    then show ?thesis using t Cons.IH[of st]
      by (cases "run_tasks w st ts") (auto split: sum.splits)
  next
    case False
    obtain s1 r1 where b: "convert_flac_body w st p (mp3_path_of p) = (s1, r1)"
      by (cases "convert_flac_body w st p (mp3_path_of p)")
    have "r1 \<noteq> Inl RuntimeError" using body_no_runtime_error[of w st p "mp3_path_of p"] b by simp
    then show ?thesis using t False b Cons.IH[of s1]
      by (cases "run_tasks w s1 ts") (auto split: sum.splits)
  qed
qed


lemma unzip_batch:
  "unzip_all fail_first_world batch_state ''out'' [''in''] True =
     (batch_unzipped, Inr [''out/Artist/Album/a.flac'', ''out/Artist/Album/b.flac''])"
  by code_simp

subsection \<open>Errors of one file and the joint await\<close>

text \<open>
  C4, in the form the code satisfies. A failed transcode of one file affects that file only: no pipeline and
  no joint await ever raises the error of a failed transcode, the pipeline of a file
  whose second stage exits with a non-zero code ends without a result, and the joint
  await goes on with the pipelines queued after it.
\<close>

theorem transcode_failure_is_contained:
  "snd (convert_flac w st p) \<noteq> Inl RuntimeError \<and>
   snd (gather_all w st flacs) \<noteq> Inl RuntimeError \<and>
   (metaflac_stdout_to_setters (proc_stdout w (metaflac_cmd_args p)) = Inr ss \<and>
    exit_code w [flac_args p, lame_args (mp3_path_of p)] 1 \<noteq> 0 \<longrightarrow>
      convert_flac_body w st p (mp3_path_of p) =
        (remove_quietly (chain_done w st p (mp3_path_of p)) (mp3_path_of p), Inr None) \<and>
      run_tasks w st ((p, False) # ts) =
        (case run_tasks w (remove_quietly (chain_done w st p (mp3_path_of p)) (mp3_path_of p)) ts of
           (st2, Inl e) \<Rightarrow> (st2, Inl e)
         | (st2, Inr rs) \<Rightarrow> (st2, Inr (None # rs))))"
proof -
  have a: "snd (convert_flac w st p) \<noteq> Inl RuntimeError"
    using body_no_runtime_error[of w st p "mp3_path_of p"]
    by (simp add: convert_flac_def Let_def)
  have b: "snd (gather_all w st flacs) \<noteq> Inl RuntimeError"
    unfolding gather_all_def by (rule run_tasks_no_runtime_error)
  have c: "metaflac_stdout_to_setters (proc_stdout w (metaflac_cmd_args p)) = Inr ss \<and>
    exit_code w [flac_args p, lame_args (mp3_path_of p)] 1 \<noteq> 0 \<longrightarrow>
      convert_flac_body w st p (mp3_path_of p) =
        (remove_quietly (chain_done w st p (mp3_path_of p)) (mp3_path_of p), Inr None) \<and>
      run_tasks w st ((p, False) # ts) =
        (case run_tasks w (remove_quietly (chain_done w st p (mp3_path_of p)) (mp3_path_of p)) ts of
           (st2, Inl e) \<Rightarrow> (st2, Inl e)
         | (st2, Inr rs) \<Rightarrow> (st2, Inr (None # rs)))"
  proof (intro impI, elim conjE)
    assume L: "metaflac_stdout_to_setters (proc_stdout w (metaflac_cmd_args p)) = Inr ss"
      and rc: "exit_code w [flac_args p, lame_args (mp3_path_of p)] 1 \<noteq> 0"
    have body: "convert_flac_body w st p (mp3_path_of p) =
        (remove_quietly (chain_done w st p (mp3_path_of p)) (mp3_path_of p), Inr None)"
      by (rule body_transcode_failed[OF L rc])
    show "convert_flac_body w st p (mp3_path_of p) =
        (remove_quietly (chain_done w st p (mp3_path_of p)) (mp3_path_of p), Inr None) \<and>
      run_tasks w st ((p, False) # ts) =
        (case run_tasks w (remove_quietly (chain_done w st p (mp3_path_of p)) (mp3_path_of p)) ts of
           (st2, Inl e) \<Rightarrow> (st2, Inl e)
         | (st2, Inr rs) \<Rightarrow> (st2, Inr (None # rs)))"
      using body by simp
  qed
  show ?thesis using a b c by blast
qed

theorem transcode_failure_is_contained_witness:
  "metaflac_stdout_to_setters
     (proc_stdout fail_first_world (metaflac_cmd_args ''out/Artist/Album/a.flac'')) =
     Inr [Closure ''title'' Ident ''A'', Closure ''title'' Ident ''B'',
          Closure ''track_num'' IntNone ''7''] \<and>
   exit_code fail_first_world
     [flac_args ''out/Artist/Album/a.flac'',
      lame_args (mp3_path_of ''out/Artist/Album/a.flac'')] 1 = 1 \<and>
   snd (convert_flac_body fail_first_world batch_unzipped ''out/Artist/Album/a.flac''
          (mp3_path_of ''out/Artist/Album/a.flac'')) = Inr None \<and>
   snd (main_loop fail_first_world batch_state ''out'' [''in''] True) =
     Inr [None, Some ''out/Artist/Album/b.mp3'']"
proof -
  have L: "metaflac_stdout_to_setters
     (proc_stdout fail_first_world (metaflac_cmd_args ''out/Artist/Album/a.flac'')) =
     Inr [Closure ''title'' Ident ''A'', Closure ''title'' Ident ''B'',
          Closure ''track_num'' IntNone ''7'']"
    by code_simp
  have rc: "exit_code fail_first_world
     [flac_args ''out/Artist/Album/a.flac'',
      lame_args (mp3_path_of ''out/Artist/Album/a.flac'')] 1 = 1"
    by code_simp
  have m: "snd (main_loop fail_first_world batch_state ''out'' [''in''] True) =
     Inr [None, Some ''out/Artist/Album/b.mp3'']"
    by code_simp
  show ?thesis
    using transcode_failure_is_contained[of fail_first_world batch_unzipped
        "''out/Artist/Album/a.flac''" "[]" _ "[]"] L rc m
    by simp
qed

text \<open>
  In the batch whose first listing has the track number seven the transcodes succeed,
  and the error of that one file is raised by the joint await of the coordinator.
\<close>

theorem parse_error_aborts_counterexample:
  "snd (main_loop batch_world batch_state ''out'' [''in''] True) = Inl ValueError"
  by code_simp

text \<open>The same batch when the second pipeline is the faster one: the joint await raises
  the error of the first file, and the second file has been converted.\<close>

lemma sibling_finished_before_raise:
  "snd (main_loop early_world batch_state ''out'' [''in''] True) = Inl ValueError \<and>
   exists (fst (main_loop early_world batch_state ''out'' [''in''] True))
     ''out/Artist/Album/b.mp3'' \<and>
   \<not> exists (fst (main_loop early_world batch_state ''out'' [''in''] True))
     ''out/Artist/Album/b.flac'' \<and>
   \<not> exists (fst (main_loop batch_world batch_state ''out'' [''in''] True))
     ''out/Artist/Album/b.mp3''"
  by code_simp


subsection \<open>Running the coordinator twice\<close>

lemma sep_splits_parts:
  "(a, b) \<in> set (sep_splits s) \<Longrightarrow> set a \<subseteq> set s \<and> set b \<subseteq> set s"
  by (auto simp: sep_splits_def dest: in_set_takeD in_set_dropD)

lemma last_split_mem: "last_split xs = Some x \<Longrightarrow> x \<in> set xs"
  by (cases xs) (auto simp: last_split_def split: if_splits)

lemma basename_no_slash: "CHR ''/'' \<notin> set (basename p)"
  by (auto simp: basename_def dest: set_takeWhileD)

lemma match_parts:
  assumes "happy_match w s = Some (a, b) \<or> check_match s = Some (a, b)"
  shows "a \<noteq> [] \<and> b \<noteq> [] \<and> set a \<subseteq> set s \<and> set b \<subseteq> set s"
proof -
  from assms have "(a, b) \<in> set (sep_splits s) \<and> a \<noteq> [] \<and> b \<noteq> []"
    by (auto simp: happy_match_def check_match_def dest!: last_split_mem)
  then show ?thesis using sep_splits_parts by blast
qed

lemma join_groups:
  assumes "a \<noteq> []" "b \<noteq> []" "CHR ''/'' \<notin> set a" "CHR ''/'' \<notin> set b"
  shows "join a b = a @ ''/'' @ b"
proof -
  have "hd b \<noteq> CHR ''/''" using assms(2,4) by (cases b) auto
  moreover have "last a \<noteq> CHR ''/''" using assms(1,3) last_in_set by metis
  ultimately show ?thesis using assms(1) by (simp add: join_def)
qed

lemma dest_name_form:
  assumes "generate_dest_dir_name w z = Inr (Some n)"
  shows "\<exists>a b. n = a @ ''/'' @ b \<and> a \<noteq> [] \<and> b \<noteq> [] \<and> CHR ''/'' \<notin> set a \<and> CHR ''/'' \<notin> set b"
proof -
  obtain f e where sp: "splitext z = (f, e)" by (cases "splitext z")
  from assms sp obtain a b where n: "n = join a b"
    and m: "happy_match w (basename f) = Some (a, b) \<or> check_match (basename f) = Some (a, b)"
    by (auto simp: generate_dest_dir_name_def Let_def split: if_splits option.splits)
  from match_parts[OF m] basename_no_slash[of f]
  have p: "a \<noteq> []" "b \<noteq> []" "CHR ''/'' \<notin> set a" "CHR ''/'' \<notin> set b" by auto
  show ?thesis using n join_groups[OF p] p by blast
qed

lemma join_root:
  assumes "n = a @ ''/'' @ b" "a \<noteq> []" "CHR ''/'' \<notin> set a"
  shows "join r n = root_prefix r @ n"
proof -
  have "hd n \<noteq> CHR ''/''" using assms by (cases a) auto
  then show ?thesis using assms by (auto simp: join_def root_prefix_def)
qed

lemma dest_two_level:
  assumes "generate_dest_dir_name w z = Inr (Some n)"
  shows "two_level r (join r n) \<and> n \<noteq> []"
proof -
  from dest_name_form[OF assms] obtain a b where n: "n = a @ ''/'' @ b"
    and p: "a \<noteq> []" "b \<noteq> []" "CHR ''/'' \<notin> set a" "CHR ''/'' \<notin> set b" by blast
  have "join r n = root_prefix r @ a @ ''/'' @ b" using join_root[OF n p(1) p(3)] n by simp
  then show ?thesis using p n unfolding two_level_def by blast
qed

lemma takeWhile_slash:
  "CHR ''/'' \<notin> set a \<Longrightarrow> takeWhile (\<lambda>c. c \<noteq> CHR ''/'') (a @ ''/'' @ x) = a"
  by (induction a) auto

lemma two_level_not_below:
  assumes "two_level r d" "two_level r d'"
  shows "d' \<noteq> d @ ''/'' @ rest"
proof
  assume e: "d' = d @ ''/'' @ rest"
  from assms obtain a b a' b' where d: "d = root_prefix r @ a @ ''/'' @ b"
    and d': "d' = root_prefix r @ a' @ ''/'' @ b'"
    and p: "CHR ''/'' \<notin> set a" "CHR ''/'' \<notin> set b" "CHR ''/'' \<notin> set a'" "CHR ''/'' \<notin> set b'"
    unfolding two_level_def by blast
  from e d d' have eq: "a' @ ''/'' @ b' = a @ ''/'' @ (b @ ''/'' @ rest)" by simp
  have "takeWhile (\<lambda>c. c \<noteq> CHR ''/'') (a' @ ''/'' @ b') = a'" using p(3) by (rule takeWhile_slash)
  moreover have "takeWhile (\<lambda>c. c \<noteq> CHR ''/'') (a @ ''/'' @ (b @ ''/'' @ rest)) = a"
    using p(1) by (rule takeWhile_slash)
  ultimately have "a' = a" using eq by simp
  then have "b' = b @ ''/'' @ rest" using eq by simp
  then show False using p(4) by simp
qed

lemma two_level_last: "two_level r d \<Longrightarrow> d \<noteq> [] \<and> last d \<noteq> CHR ''/''"
proof -
  assume "two_level r d"
  then obtain a b where d: "d = root_prefix r @ a @ ''/'' @ b" and b: "b \<noteq> []" "CHR ''/'' \<notin> set b"
    unfolding two_level_def by blast
  have "last d = last b" using d b(1) by simp
  then show ?thesis using d b last_in_set by fastforce
qed

lemma expanded_mono:
  "expanded w st r z \<Longrightarrow> kept r st st' \<Longrightarrow> expanded w st' r z"
  by (auto simp: expanded_def kept_def split: sum.splits option.splits)

lemma kept_refl: "kept r st st"
  by (simp add: kept_def)

lemma kept_trans: "kept r a b \<Longrightarrow> kept r b c \<Longrightarrow> kept r a c"
  unfolding kept_def by simp

lemma queued_ok_mono: "queued_ok r st p \<Longrightarrow> kept r st st' \<Longrightarrow> queued_ok r st' p"
  unfolding queued_ok_def kept_def exists_def by auto

lemma not_in_ancestors: "p \<notin> set (ancestors p)"
proof
  assume "p \<in> set (ancestors p)"
  then obtain i where "p = take i p" and "i < length p" by (auto simp: ancestors_def)
  then have "length p = length (take i p)" by simp
  then show False using \<open>i < length p\<close> by simp
qed

lemma makedirs_lookup:
  assumes "makedirs st d = Inr st1"
  shows "(\<forall>k. exists st k \<longrightarrow> map_of (files st1) k = map_of (files st) k) \<and>
         map_of (files st1) d = Some Dir"
proof -
  let ?anc = "map (\<lambda>a. (a, Dir)) (filter (\<lambda>a. \<not> exists st a) (ancestors d))"
  from assms have n: "\<not> exists st d"
    and f: "files st1 = files st @ ?anc @ [(d, Dir)]"
    by (auto simp: makedirs_def split: if_splits)
  have a: "map_of ?anc d = None"
    using not_in_ancestors[of d] by (auto simp: map_of_eq_None_iff image_iff)
  have "map_of (files st1) d = Some Dir"
    using n a unfolding f by (simp add: exists_def map_add_def)
  moreover have "\<forall>k. exists st k \<longrightarrow> map_of (files st1) k = map_of (files st) k"
    unfolding f by (auto simp: exists_def map_add_def split: option.splits)
  ultimately show ?thesis by simp
qed

lemma extract_lookup_other:
  "(\<forall>name. k \<noteq> d @ ''/'' @ name) \<Longrightarrow>
   map_of (foldl (\<lambda>fs (name, n). AList.update (d @ ''/'' @ name) n fs) fs ms) k = map_of fs k"
  by (induction ms arbitrary: fs) (auto simp: update_conv' split: prod.splits)

lemma extract_lookup_exists:
  "map_of fs k \<noteq> None \<Longrightarrow>
   map_of (foldl (\<lambda>fs (name, n). AList.update (d @ ''/'' @ name) n fs) fs ms) k \<noteq> None"
  by (induction ms arbitrary: fs) (auto simp: update_conv' split: prod.splits)

lemma unzip_facts:
  assumes u: "unzip w st z r = (st', Inr res)"
  shows "kept r st st' \<and>
         expanded w st' r z \<and>
         (res = None \<longrightarrow> st' = st) \<and>
         (\<forall>dn. res = Some dn \<longrightarrow> two_level r dn \<and> map_of (files st') dn = Some Dir)"
proof (cases "generate_dest_dir_name w z")
  case (Inl e)
  then show ?thesis using u by (simp add: unzip_def unzip_serial_def)
next
  case (Inr nm)
  show ?thesis
  proof (cases nm)
    case None
    then show ?thesis using u Inr by (simp add: unzip_def unzip_serial_def expanded_def kept_def)
  next
    case (Some n)
    have g: "generate_dest_dir_name w z = Inr (Some n)" using Inr Some by simp
    from dest_two_level[OF g] have tl: "two_level r (join r n)" and ne: "n \<noteq> []" by auto
    let ?d = "join r n"
    show ?thesis
    proof (cases "exists st ?d")
      case True
      then show ?thesis using u g ne by (simp add: unzip_def unzip_serial_def expanded_def kept_def)
    next
      case False
      from u g ne False obtain st1 ms where mk: "makedirs st ?d = Inr st1"
        and st': "st' = extractall st1 z ms ?d" and res: "res = Some ?d"
        by (auto simp: unzip_def unzip_serial_def Let_def split: sum.splits)
      note ml = makedirs_lookup[OF mk]
      have f': "files st' = foldl (\<lambda>fs (name, n). AList.update (?d @ ''/'' @ name) n fs) (files st1) ms"
        by (simp add: st' extractall_def)
      have a: "\<forall>k. exists st k \<longrightarrow> exists st' k"
        using ml extract_lookup_exists[of "files st1" _ ?d ms] unfolding f' exists_def by auto
      have b: "\<forall>k. two_level r k \<longrightarrow> exists st k \<longrightarrow> map_of (files st') k = map_of (files st) k"
      proof (intro allI impI)
        fix k assume k: "two_level r k" and e: "exists st k"
        have "\<forall>name. k \<noteq> ?d @ ''/'' @ name" using two_level_not_below[OF tl k] by blast
        then have "map_of (files st') k = map_of (files st1) k"
          unfolding f' by (rule extract_lookup_other)
        then show "map_of (files st') k = map_of (files st) k" using ml e by simp
      qed
      have d: "map_of (files st') ?d = Some Dir"
      proof -
        have "\<forall>name. ?d \<noteq> ?d @ ''/'' @ name" by simp
        then have "map_of (files st') ?d = map_of (files st1) ?d"
          unfolding f' by (rule extract_lookup_other)
        then show ?thesis using ml by simp
      qed
      have c: "expanded w st' r z" using g d by (simp add: expanded_def exists_def)
      have k: "kept r st st'" unfolding kept_def using a b by blast
      show ?thesis using k c d res tl by simp
    qed
  qed
qed

lemma below_form:
  assumes "below dn k" "dn \<noteq> []" "last dn \<noteq> CHR ''/''"
  shows "\<exists>rest. k = dn @ ''/'' @ rest"
proof -
  have dp: "dir_prefix dn = dn @ ''/''" using assms(2,3) by (simp add: dir_prefix_def)
  from assms(1) have "take (length (dn @ ''/'')) k = dn @ ''/''"
    unfolding below_def dp by simp
  then have "k = (dn @ ''/'') @ drop (length (dn @ ''/'')) k"
    by (metis append_take_drop_id)
  then show ?thesis by (metis append.assoc)
qed

lemma flacs_form:
  assumes "get_all_matching st dn ''.flac'' True = Inr fl" "dn \<noteq> []" "last dn \<noteq> CHR ''/''"
  shows "\<forall>p \<in> set fl. p = dn \<or> (\<exists>rest. p = dn @ ''/'' @ rest)"
proof (cases "endswith (lower dn) (lower ''.flac'')")
  case True
  then show ?thesis using assms(1) by (auto simp: get_all_matching_def Let_def)
next
  case False
  then have "set fl \<subseteq> set (recurse st dn)"
    using assms(1) by (auto simp: get_all_matching_def Let_def)
  then have "\<forall>p \<in> set fl. below dn p" by (auto simp: recurse_def split: if_splits)
  then show ?thesis using below_form[OF _ assms(2,3)] by blast
qed

lemma unzip_each_inv:
  assumes "unzip_each w st r (z # zs) = (st', Inr fl)"
  shows "\<exists>s1 res. unzip w st z r = (s1, Inr res) \<and>
           (res = None \<longrightarrow> unzip_each w s1 r zs = (st', Inr fl)) \<and>
           (\<forall>dn. res = Some dn \<longrightarrow>
              (\<exists>f1 f2. get_all_matching s1 dn ''.flac'' True = Inr f1 \<and>
                       unzip_each w s1 r zs = (st', Inr f2) \<and> fl = f1 @ f2))"
proof -
  obtain s1 r1 where u: "unzip w st z r = (s1, r1)" by (cases "unzip w st z r")
  show ?thesis
  proof (cases r1)
    case (Inl e)
    then show ?thesis using assms u by simp
  next
    case (Inr res)
    show ?thesis
    proof (cases res)
      case None
      then show ?thesis using assms u Inr by simp
    next
      case (Some dn)
      show ?thesis
      proof (cases "get_all_matching s1 dn ''.flac'' True")
        case (Inl e)
        then show ?thesis using assms u Inr Some by simp
      next
        case g: (Inr f1)
        obtain s2 r2 where e: "unzip_each w s1 r zs = (s2, r2)" by (cases "unzip_each w s1 r zs")
        show ?thesis
        proof (cases r2)
          case (Inl e')
          then show ?thesis using assms u Inr Some g e by simp
        next
          case r2: (Inr f2)
          then show ?thesis using assms u Inr Some g e by simp
        qed
      qed
    qed
  qed
qed

lemma unzip_each_facts:
  assumes "unzip_each w st r zs = (st', Inr fl)"
  shows "kept r st st' \<and>
         (\<forall>z \<in> set zs. expanded w st' r z) \<and>
         (\<forall>p \<in> set fl. queued_ok r st' p)"
  using assms
proof (induction zs arbitrary: st fl)
  case Nil
  then show ?case by (simp add: kept_refl)
next
  case (Cons z zs)
  from unzip_each_inv[OF Cons.prems] obtain s1 res where u: "unzip w st z r = (s1, Inr res)"
    and n: "res = None \<longrightarrow> unzip_each w s1 r zs = (st', Inr fl)"
    and s: "\<forall>dn. res = Some dn \<longrightarrow>
              (\<exists>f1 f2. get_all_matching s1 dn ''.flac'' True = Inr f1 \<and>
                       unzip_each w s1 r zs = (st', Inr f2) \<and> fl = f1 @ f2)"
    by blast
  have k1: "kept r st s1" and x1: "expanded w s1 r z"
    and dirs: "\<forall>dn. res = Some dn \<longrightarrow> two_level r dn \<and> map_of (files s1) dn = Some Dir"
    using unzip_facts[OF u] by simp_all
  show ?case
  proof (cases res)
    case None
    then have e: "unzip_each w s1 r zs = (st', Inr fl)" using n by simp
    have k2: "kept r s1 st'" and xs: "\<forall>z \<in> set zs. expanded w st' r z"
      and q: "\<forall>p \<in> set fl. queued_ok r st' p"
      using Cons.IH[OF e] by simp_all
    have "kept r st st'" using k1 k2 by (rule kept_trans)
    moreover have "expanded w st' r z" using x1 k2 by (rule expanded_mono)
    ultimately show ?thesis using xs q by simp
  next
    case (Some dn)
    then obtain f1 f2 where g: "get_all_matching s1 dn ''.flac'' True = Inr f1"
      and e: "unzip_each w s1 r zs = (st', Inr f2)" and fl: "fl = f1 @ f2"
      using s by blast
    have k2: "kept r s1 st'" and xs: "\<forall>z \<in> set zs. expanded w st' r z"
      and q2: "\<forall>p \<in> set f2. queued_ok r st' p"
      using Cons.IH[OF e] by simp_all
    have tl: "two_level r dn" and dir: "map_of (files s1) dn = Some Dir" using dirs Some by simp_all
    have ne: "dn \<noteq> []" and la: "last dn \<noteq> CHR ''/''" using two_level_last[OF tl] by simp_all
    have q1: "\<forall>p \<in> set f1. queued_ok r st' p"
    proof
      fix p assume "p \<in> set f1"
      then have "p = dn \<or> (\<exists>rest. p = dn @ ''/'' @ rest)" using flacs_form[OF g ne la] by simp
      then have "queued_ok r s1 p" unfolding queued_ok_def using tl dir by blast
      then show "queued_ok r st' p" using k2 by (rule queued_ok_mono)
    qed
    have "kept r st st'" using k1 k2 by (rule kept_trans)
    moreover have "expanded w st' r z" using x1 k2 by (rule expanded_mono)
    ultimately show ?thesis using xs q1 q2 fl by auto
  qed
qed

lemma unzip_all_inv:
  assumes "unzip_all w st r (p # ps) d = (st', Inr fl)"
  shows "\<exists>zs s1 f1 f2. get_all_matching st p ''.zip'' d = Inr zs \<and>
           unzip_each w st r zs = (s1, Inr f1) \<and>
           unzip_all w s1 r ps d = (st', Inr f2) \<and> fl = f1 @ f2"
proof (cases "get_all_matching st p ''.zip'' d")
  case (Inl e)
  then show ?thesis using assms by simp
next
  case g: (Inr zs)
  obtain s1 r1 where u: "unzip_each w st r zs = (s1, r1)" by (cases "unzip_each w st r zs")
  show ?thesis
  proof (cases r1)
    case (Inl e)
    then show ?thesis using assms g u by simp
  next
    case r1: (Inr f1)
    obtain s2 r2 where e: "unzip_all w s1 r ps d = (s2, r2)" by (cases "unzip_all w s1 r ps d")
    show ?thesis
    proof (cases r2)
      case (Inl e')
      then show ?thesis using assms g u r1 e by simp
    next
      case (Inr f2)
      then show ?thesis using assms g u r1 e by simp
    qed
  qed
qed

lemma unzip_all_facts:
  assumes "unzip_all w st r ps d = (st', Inr fl)"
  shows "kept r st st' \<and>
         (\<forall>z \<in> set (visited w st r ps d). expanded w st' r z) \<and>
         (\<forall>p \<in> set fl. queued_ok r st' p)"
  using assms
proof (induction ps arbitrary: st fl)
  case Nil
  then show ?case by (simp add: kept_refl)
next
  case (Cons p ps)
  from unzip_all_inv[OF Cons.prems] obtain zs s1 f1 f2
    where g: "get_all_matching st p ''.zip'' d = Inr zs"
      and u: "unzip_each w st r zs = (s1, Inr f1)"
      and e: "unzip_all w s1 r ps d = (st', Inr f2)" and fl: "fl = f1 @ f2"
    by blast
  have k1: "kept r st s1" and x1: "\<forall>z \<in> set zs. expanded w s1 r z"
    and q1: "\<forall>p \<in> set f1. queued_ok r s1 p"
    using unzip_each_facts[OF u] by simp_all
  have k2: "kept r s1 st'" and x2: "\<forall>z \<in> set (visited w s1 r ps d). expanded w st' r z"
    and q2: "\<forall>p \<in> set f2. queued_ok r st' p"
    using Cons.IH[OF e] by simp_all
  have v: "visited w st r (p # ps) d = zs @ visited w s1 r ps d" using g u by simp
  have a: "kept r st st'" using k1 k2 by (rule kept_trans)
  have c: "\<forall>z \<in> set zs. expanded w st' r z" using x1 k2 expanded_mono by blast
  have q: "\<forall>p \<in> set f1. queued_ok r st' p" using q1 k2 queued_ok_mono by blast
  show ?case unfolding v using a c q x2 q2 fl by auto
qed

lemma convert_file_only_frame:
  assumes c: "convert_file_only w s1 p m = (s2, r2)"
    and lame: "set (chain_creates w [flac_args p, lame_args m]) \<subseteq> {m}"
    and k: "k \<noteq> m"
  shows "map_of (files s2) k = map_of (files s1) k"
proof (cases "metaflac_stdout_to_setters (proc_stdout w (metaflac_cmd_args p))")
  case (Inl e)
  then show ?thesis using c by (auto simp: convert_file_only_eq)
next
  case (Inr ss)
  let ?st2 = "fst (pipe_cmds w (emit (Exec (metaflac_cmd_args p)) s1) (flac_args p) (lame_args m))"
  have a: "map_of (files ?st2) k = map_of (files s1) k"
    using lame k by (auto simp: pipe_cmds_eq map_of_created)
  have b: "map_of (files (remove_quietly ?st2 m)) k = map_of (files ?st2) k"
    using k by (auto simp: remove_quietly_def os_remove_def delete_conv'
        split: option.splits node.splits)
  show ?thesis using c Inr a b
    by (auto simp: convert_file_only_eq Let_def split: if_splits)
qed

lemma set_tags_frame:
  "set_tags w s2 m ss = (s3, r3) \<Longrightarrow> k \<noteq> m \<Longrightarrow> map_of (files s3) k = map_of (files s2) k"
  by (auto simp: set_tags_def update_conv' split: sum.splits if_splits)

lemma os_remove_frame:
  "os_remove s3 p = Inr s4 \<Longrightarrow>
   (\<exists>t. map_of (files s3) p = Some (File t)) \<and> (\<forall>k. k \<noteq> p \<longrightarrow> map_of (files s4) k = map_of (files s3) k)"
  by (auto simp: os_remove_def delete_conv' split: option.splits node.splits)

lemma body_frame:
  assumes b: "convert_flac_body w s p m = (s', r)"
    and lame: "set (chain_creates w [flac_args p, lame_args m]) \<subseteq> {m}"
    and k: "k \<noteq> m"
  shows "map_of (files s') k = map_of (files s) k \<or> (k = p \<and> (\<exists>t. map_of (files s) p = Some (File t)))"
proof -
  obtain s1 r1 where g: "get_tag_setters w s p = (s1, r1)" by (cases "get_tag_setters w s p")
  obtain s2 r2 where c: "convert_file_only w s1 p m = (s2, r2)"
    by (cases "convert_file_only w s1 p m")
  have f1: "files s1 = files s" using g by (auto simp: get_tag_setters_eq)
  have f2: "map_of (files s2) k = map_of (files s) k"
    using convert_file_only_frame[OF c lame k] f1 by simp
  show ?thesis
  proof (cases "gather2 r1 r2")
    case (Inl e)
    then have "s' = s2" using b g c by (simp add: convert_flac_body_def split: if_splits)
    then show ?thesis using f2 by simp
  next
    case (Inr x)
    obtain ss u where x: "x = (ss, u)" by (cases x)
    obtain s3 r3 where t: "set_tags w s2 m ss = (s3, r3)" by (cases "set_tags w s2 m ss")
    have f3: "map_of (files s3) k = map_of (files s) k"
      using set_tags_frame[OF t k] f2 by simp
    show ?thesis
    proof (cases r3)
      case (Inl e)
      then have "s' = s3" using b g c Inr x t by (simp add: convert_flac_body_def)
      then show ?thesis using f3 by simp
    next
      case r3: (Inr u')
      show ?thesis
      proof (cases "os_remove s3 p")
        case (Inl e)
        then have "s' = s3" using b g c Inr x t r3 by (simp add: convert_flac_body_def)
        then show ?thesis using f3 by simp
      next
        case rm: (Inr s4)
        then have s': "s' = s4" using b g c Inr x t r3 by (simp add: convert_flac_body_def)
        note fr = os_remove_frame[OF rm]
        show ?thesis
        proof (cases "k = p")
          case True
          then show ?thesis using fr f3 by auto
        next
          case False
          then show ?thesis using fr f3 s' by simp
        qed
      qed
    qed
  qed
qed

lemma body_dests_same:
  assumes lame: "set (chain_creates w [flac_args p, lame_args (mp3_path_of p)]) \<subseteq> {mp3_path_of p}"
    and ok: "task_ok r st0 (p, False)"
    and inv: "dests_same r st0 s"
    and b: "convert_flac_body w s p (mp3_path_of p) = (s', res)"
  shows "dests_same r st0 s'"
  unfolding dests_same_def
proof (intro allI impI)
  fix k assume tl: "two_level r k" and ex: "exists st0 k"
  have km: "k \<noteq> mp3_path_of p" using ok ex by (auto simp: task_ok_def)
  have same: "map_of (files s) k = map_of (files st0) k" using inv tl ex by (simp add: dests_same_def)
  from body_frame[OF b lame km]
  show "map_of (files s') k = map_of (files st0) k"
  proof
    assume "map_of (files s') k = map_of (files s) k"
    then show ?thesis using same by simp
  next
    assume a: "k = p \<and> (\<exists>t. map_of (files s) p = Some (File t))"
    then have "map_of (files st0) p = Some Dir" using ok tl ex by (simp add: task_ok_def)
    then show ?thesis using a same by simp
  qed
qed

lemma run_rest_dests_same:
  assumes lame: "\<forall>p m. set (chain_creates w [flac_args p, lame_args m]) \<subseteq> {m}"
    and ok: "\<forall>t \<in> set ts. task_ok r st0 t"
    and inv: "dests_same r st0 s"
  shows "dests_same r st0 (run_rest w s q ts)"
  using ok inv
proof (induction ts arbitrary: s)
  case Nil
  then show ?case by simp
next
  case (Cons t ts)
  obtain p skip where t: "t = (p, skip)" by (cases t)
  have rest: "\<forall>t \<in> set ts. task_ok r st0 t" using Cons.prems(1) by simp
  show ?case
  proof (cases "skip \<or> \<not> finished_before w p q")
    case True
    then show ?thesis using t Cons.IH[OF rest Cons.prems(2)] by auto
  next
    case False
    obtain s1 r1 where b: "convert_flac_body w s p (mp3_path_of p) = (s1, r1)"
      by (cases "convert_flac_body w s p (mp3_path_of p)")
    have tk: "task_ok r st0 (p, False)" using Cons.prems(1) t False by simp
    have a: "dests_same r st0 s1" using body_dests_same[OF _ tk Cons.prems(2) b] lame by blast
    show ?thesis using t False b Cons.IH[OF rest a] by simp
  qed
qed

lemma run_tasks_dests_same:
  assumes lame: "\<forall>p m. set (chain_creates w [flac_args p, lame_args m]) \<subseteq> {m}"
    and ok: "\<forall>t \<in> set ts. task_ok r st0 t"
    and inv: "dests_same r st0 s"
    and run: "run_tasks w s ts = (s', res)"
  shows "dests_same r st0 s'"
  using ok inv run
proof (induction ts arbitrary: s s' res)
  case Nil
  then show ?case by simp
next
  case (Cons t ts)
  obtain p skip where t: "t = (p, skip)" by (cases t)
  obtain s1 r1 where h: "(if skip then (s, Inr None)
            else convert_flac_body w s p (mp3_path_of p)) = (s1, r1)"
    by (cases "(if skip then (s, Inr None) else convert_flac_body w s p (mp3_path_of p))")
  have a: "dests_same r st0 s1"
  proof (cases skip)
    case True
    then show ?thesis using h Cons.prems(2) by simp
  next
    case False
    then have b: "convert_flac_body w s p (mp3_path_of p) = (s1, r1)" using h by simp
    have tk: "task_ok r st0 (p, False)" using Cons.prems(1) t False by simp
    show ?thesis using body_dests_same[OF _ tk Cons.prems(2) b] lame by blast
  qed
  show ?case
  proof (cases r1)
    case (Inl e)
    then have "s' = run_rest w s1 p ts" using Cons.prems(3) t h by simp
    moreover have "\<forall>t \<in> set ts. task_ok r st0 t" using Cons.prems(1) by simp
    ultimately show ?thesis using run_rest_dests_same[OF lame _ a] by simp
  next
    case (Inr x)
    obtain s2 r2 where rt: "run_tasks w s1 ts = (s2, r2)" by (cases "run_tasks w s1 ts")
    have "s' = s2" using Cons.prems(3) t h Inr rt by (auto split: sum.splits)
    moreover have "dests_same r st0 s2"
      using Cons.IH[OF _ a rt] Cons.prems(1) by simp
    ultimately show ?thesis by simp
  qed
qed

lemma unzip_expanded: "expanded w st r z \<Longrightarrow> unzip w st z r = (st, Inr None)"
  by (auto simp: expanded_def unzip_def unzip_serial_def Let_def split: sum.splits option.splits)

lemma unzip_each_noop:
  "\<forall>z \<in> set zs. expanded w st r z \<Longrightarrow> unzip_each w st r zs = (st, Inr [])"
  by (induction zs) (simp_all add: unzip_expanded)

lemma unzip_all_noop:
  "\<forall>p \<in> set ps. \<exists>zs. get_all_matching st p ''.zip'' d = Inr zs \<and> (\<forall>z \<in> set zs. expanded w st r z)
   \<Longrightarrow> unzip_all w st r ps d = (st, Inr [])"
proof (induction ps)
  case Nil
  then show ?case by simp
next
  case (Cons p ps)
  then obtain zs where g: "get_all_matching st p ''.zip'' d = Inr zs"
    and x: "\<forall>z \<in> set zs. expanded w st r z" by auto
  have "unzip_each w st r zs = (st, Inr [])" using x by (rule unzip_each_noop)
  moreover have "unzip_all w st r ps d = (st, Inr [])" using Cons by simp
  ultimately show ?case using g by simp
qed

lemma main_loop_noop:
  "\<forall>p \<in> set ps. \<exists>zs. get_all_matching st p ''.zip'' d = Inr zs \<and> (\<forall>z \<in> set zs. expanded w st r z)
   \<Longrightarrow> main_loop w st r ps d = (st, Inr [])"
  by (simp add: main_loop_def unzip_all_noop gather_all_def)

lemma expanded_dests_same:
  assumes x: "expanded w st0 r z" and ds: "dests_same r st0 s"
  shows "expanded w s r z"
proof (cases "generate_dest_dir_name w z")
  case (Inl e)
  then show ?thesis using x by (simp add: expanded_def)
next
  case (Inr nm)
  show ?thesis
  proof (cases nm)
    case None
    then show ?thesis using Inr by (simp add: expanded_def)
  next
    case (Some n)
    have g: "generate_dest_dir_name w z = Inr (Some n)" using Inr Some by simp
    have tl: "two_level r (join r n)" using dest_two_level[OF g] by simp
    have ne: "n \<noteq> []" using dest_two_level[OF g] by simp
    have "exists st0 (join r n)" using x g ne by (simp add: expanded_def)
    then have "exists s (join r n)" using ds tl by (simp add: dests_same_def exists_def)
    then show ?thesis using g by (simp add: expanded_def)
  qed
qed

lemma queued_task_ok:
  assumes "queued_ok r st0 p"
  shows "task_ok r st0 (p, exists st0 (mp3_path_of p))"
proof -
  have "two_level r p \<longrightarrow> map_of (files st0) p = Some Dir"
    using assms two_level_not_below unfolding queued_ok_def by blast
  then show ?thesis by (simp add: task_ok_def)
qed

lemma first_run_expands:
  assumes lame: "\<forall>p m. set (chain_creates w [flac_args p, lame_args m]) \<subseteq> {m}"
    and u: "unzip_all w st r ps d = (st_u, Inr flacs)"
    and g: "gather_all w st_u flacs = (st1, r1)"
  shows "\<forall>z \<in> set (visited w st r ps d). expanded w st1 r z"
proof -
  have x: "\<forall>z \<in> set (visited w st r ps d). expanded w st_u r z"
    and q: "\<forall>p \<in> set flacs. queued_ok r st_u p"
    using unzip_all_facts[OF u] by simp_all
  have ok: "\<forall>t \<in> set (map (\<lambda>p. (p, exists st_u (mp3_path_of p))) flacs). task_ok r st_u t"
    using q queued_task_ok by auto
  have inv: "dests_same r st_u st_u" by (simp add: dests_same_def)
  have "dests_same r st_u st1"
    using run_tasks_dests_same[OF lame ok inv] g unfolding gather_all_def by blast
  then show ?thesis using x expanded_dests_same by blast
qed

text \<open>
  C5. A pipeline whose output path exists at entry returns at once: nothing is launched,
  nothing is removed, the state is the one it was given. And a second run of the
  coordinator skips what the first run has dealt with: when the first run has gone
  through its archives and run its pipelines (whatever their outcome), the chain writes
  no file but its output, and the second run finds no archive that the first run did not
  visit, the second run expands nothing, queues no pipeline, raises no error and leaves
  the state as it is.
\<close>

theorem second_run_skips:
  "(exists s (mp3_path_of p) \<longrightarrow> convert_flac w s p = (s, Inr None)) \<and>
   ((\<forall>p m. set (chain_creates w [flac_args p, lame_args m]) \<subseteq> {m}) \<and>
    unzip_all w st r ps d = (st_u, Inr flacs) \<and>
    gather_all w st_u flacs = (st1, r1) \<and>
    (\<forall>q \<in> set ps. \<exists>zs. get_all_matching st1 q ''.zip'' d = Inr zs \<and>
                         set zs \<subseteq> set (visited w st r ps d)) \<longrightarrow>
    main_loop w st1 r ps d = (st1, Inr []))"
proof -
  have a: "exists s (mp3_path_of p) \<longrightarrow> convert_flac w s p = (s, Inr None)"
    by (simp add: convert_flac_def Let_def)
  have b: "(\<forall>p m. set (chain_creates w [flac_args p, lame_args m]) \<subseteq> {m}) \<and>
    unzip_all w st r ps d = (st_u, Inr flacs) \<and>
    gather_all w st_u flacs = (st1, r1) \<and>
    (\<forall>q \<in> set ps. \<exists>zs. get_all_matching st1 q ''.zip'' d = Inr zs \<and>
                         set zs \<subseteq> set (visited w st r ps d)) \<longrightarrow>
    main_loop w st1 r ps d = (st1, Inr [])"
  proof (intro impI, elim conjE)
    assume lame: "\<forall>p m. set (chain_creates w [flac_args p, lame_args m]) \<subseteq> {m}"
      and u: "unzip_all w st r ps d = (st_u, Inr flacs)"
      and g: "gather_all w st_u flacs = (st1, r1)"
      and same: "\<forall>q \<in> set ps. \<exists>zs. get_all_matching st1 q ''.zip'' d = Inr zs \<and>
                         set zs \<subseteq> set (visited w st r ps d)"
    have x: "\<forall>z \<in> set (visited w st r ps d). expanded w st1 r z"
      by (rule first_run_expands[OF lame u g])
    have "\<forall>q \<in> set ps. \<exists>zs. get_all_matching st1 q ''.zip'' d = Inr zs \<and>
             (\<forall>z \<in> set zs. expanded w st1 r z)"
      using same x by blast
    then show "main_loop w st1 r ps d = (st1, Inr [])" by (rule main_loop_noop)
  qed
  show ?thesis using a b by blast
qed

lemma ok_unzip:
  "unzip_all ok_world batch_state ''out'' [''in''] True =
     (batch_unzipped, Inr [''out/Artist/Album/a.flac'', ''out/Artist/Album/b.flac''])"
  by code_simp

lemma ok_gather:
  "gather_all ok_world batch_unzipped [''out/Artist/Album/a.flac'', ''out/Artist/Album/b.flac''] =
     (batch_done, Inr [Some ''out/Artist/Album/a.mp3'', Some ''out/Artist/Album/b.mp3''])"
  by code_simp

lemma ok_lame: "\<forall>p m. set (chain_creates ok_world [flac_args p, lame_args m]) \<subseteq> {m}"
  by (simp add: ok_world_def batch_world_def lame_args_def)

lemma ok_found: "get_all_matching batch_done ''in'' ''.zip'' True = Inr [''in/Artist - Album.zip'']"
  by code_simp

lemma ok_visited: "visited ok_world batch_state ''out'' [''in''] True = [''in/Artist - Album.zip'']"
  by code_simp

lemma ok_exists: "exists batch_done (mp3_path_of ''out/Artist/Album/a.flac'')"
  by code_simp

theorem second_run_skips_witness:
  "exists batch_done (mp3_path_of ''out/Artist/Album/a.flac'') \<and>
   convert_flac ok_world batch_done ''out/Artist/Album/a.flac'' = (batch_done, Inr None) \<and>
   unzip_all ok_world batch_state ''out'' [''in''] True =
     (batch_unzipped, Inr [''out/Artist/Album/a.flac'', ''out/Artist/Album/b.flac'']) \<and>
   gather_all ok_world batch_unzipped [''out/Artist/Album/a.flac'', ''out/Artist/Album/b.flac''] =
     (batch_done, Inr [Some ''out/Artist/Album/a.mp3'', Some ''out/Artist/Album/b.mp3'']) \<and>
   get_all_matching batch_done ''in'' ''.zip'' True = Inr [''in/Artist - Album.zip''] \<and>
   visited ok_world batch_state ''out'' [''in''] True = [''in/Artist - Album.zip''] \<and>
   main_loop ok_world batch_done ''out'' [''in''] True = (batch_done, Inr [])"
proof -
  have same: "\<forall>q \<in> set [''in'']. \<exists>zs. get_all_matching batch_done q ''.zip'' True = Inr zs \<and>
                set zs \<subseteq> set (visited ok_world batch_state ''out'' [''in''] True)"
    using ok_found ok_visited by simp
  note t = second_run_skips[of batch_done "''out/Artist/Album/a.flac''" ok_world batch_state
      "''out''" "[''in'']" True batch_unzipped
      "[''out/Artist/Album/a.flac'', ''out/Artist/Album/b.flac'']" batch_done
      "Inr [Some ''out/Artist/Album/a.mp3'', Some ''out/Artist/Album/b.mp3'']"]
  have one: "convert_flac ok_world batch_done ''out/Artist/Album/a.flac'' = (batch_done, Inr None)"
    using t ok_exists by blast
  have two: "main_loop ok_world batch_done ''out'' [''in''] True = (batch_done, Inr [])"
    using t ok_lame ok_unzip ok_gather same by blast
  show ?thesis using one two ok_exists ok_unzip ok_gather ok_found ok_visited by simp
qed


end
